theory Spec2Isabelle
  imports Complex_Main "HOL-Library.AList"
begin

section \<open>Python values of the agent loop\<close>

text \<open>
  The model follows \<open>src/agent.py\<close> and \<open>src/tools.py\<close>. The language model and the tools
  are external: each is a function that reads and changes a world \<open>'w\<close> and returns or
  raises. The observability calls (\<open>braintrust\<close> spans and their logs) do not change the
  control flow and are left out, but for the output and the metrics that \<open>run\<close> logs to
  the current span before it returns.

  A raised exception is its class name and its \<open>str()\<close>. \<open>Exception c s\<close> is an instance
  of \<open>Exception\<close> or of a subclass of it; \<open>BaseExceptionOnly c s\<close> is an instance of a class
  that derives from \<open>BaseException\<close> and not from \<open>Exception\<close> (\<open>asyncio.CancelledError\<close>,
  \<open>KeyboardInterrupt\<close>, \<open>SystemExit\<close>, \<open>GeneratorExit\<close>). A clause \<open>except Exception\<close>
  catches the first kind only.
\<close>

datatype exception =
    is_Exception: Exception (exc_class: string) (exc_str: string)
  | BaseExceptionOnly (exc_class: string) (exc_str: string)

text \<open>Attribute access on an object that lacks the attribute, as \<open>d.role\<close> on a dict.\<close>

definition AttributeError :: "string \<Rightarrow> string \<Rightarrow> exception" where
  "AttributeError obj attr =
     Exception ''AttributeError''
       ([CHR 0x27] @ obj @ [CHR 0x27] @ '' object has no attribute '' @ [CHR 0x27] @ attr @ [CHR 0x27])"

definition IndexError :: exception where
  "IndexError = Exception ''IndexError'' ''list index out of range''"

text \<open>\<open>str(n)\<close> of an integer, as the f-string of the fallback message formats it.\<close>

fun str_nat :: "nat \<Rightarrow> string" where
  "str_nat n =
     (if n < 10 then [''0123456789'' ! n]
      else str_nat (n div 10) @ [''0123456789'' ! (n mod 10)])"

definition str_int :: "int \<Rightarrow> string" where
  "str_int i = (if i < 0 then ''-'' @ str_nat (nat (- i)) else str_nat (nat i))"

subsection \<open>tools.py: ToolResult and Tool\<close>

record 'd ToolResult =
  success :: bool
  message :: string
  data :: "'d option"

text \<open>
  A tool: its three properties and its \<open>execute\<close>. The keyword arguments have the type
  \<open>'a\<close>, the parameter schema \<open>'p\<close>, the payload of a result \<open>'d\<close>. \<open>execute\<close> is
  an external effect: it reads and changes the world \<open>'w\<close>, and either returns a
  result or raises.
\<close>

record ('a, 'p, 'd, 'w) Tool =
  name :: string
  description :: string
  parameters :: 'p
  execute :: "'a \<Rightarrow> 'w \<Rightarrow> (exception + 'd ToolResult) \<times> 'w"

record 'p FunctionSchema =
  schema_name :: string
  schema_description :: string
  schema_parameters :: 'p

definition to_function_schema :: "('a, 'p, 'd, 'w) Tool \<Rightarrow> 'p FunctionSchema" where
  "to_function_schema tool =
     \<lparr>schema_name = name tool,
      schema_description = description tool,
      schema_parameters = parameters tool\<rparr>"

subsection \<open>Messages of the transcript\<close>

text \<open>A tool call of an assistant message: \<open>id\<close>, \<open>function.name\<close>, \<open>function.arguments\<close>.\<close>

record ToolCall =
  tool_call_id :: string
  function_name :: string
  function_arguments :: string

text \<open>
  The content of an assistant message is \<open>None\<close>, a string, or a list of dict-like
  parts.
\<close>

datatype content = ContentNone | ContentStr string | ContentParts "(string \<rightharpoonup> string) list"

text \<open>
  Python truthiness of a content: \<open>None\<close>, the empty string and the empty list are
  false. (An optional list of tool calls is true when it is a non-empty list; the loop
  body matches on it.)
\<close>

fun truthy :: "content \<Rightarrow> bool" where
  "truthy ContentNone = False"
| "truthy (ContentStr s) = (s \<noteq> [])"
| "truthy (ContentParts ps) = (ps \<noteq> [])"

text \<open>The message object of a model response; its \<open>role\<close> is always \<open>assistant\<close>.\<close>

record ChatCompletionMessage =
  content :: content
  tool_calls :: "ToolCall list option"

text \<open>
  The transcript holds two kinds of Python values: the dicts that \<open>run\<close> builds
  (system, user and tool turns) and the message objects that the model returns.
\<close>

datatype message = Dict "(string \<times> string) list" | Message ChatCompletionMessage

text \<open>The names of the tool calls that the model messages of a transcript request, in order.\<close>

fun requested_names :: "message list \<Rightarrow> string list" where
  "requested_names [] = []"
| "requested_names (Dict d # ms) = requested_names ms"
| "requested_names (Message m # ms) =
     (case tool_calls m of None \<Rightarrow> [] | Some cs \<Rightarrow> map function_name cs) @ requested_names ms"

text \<open>The number of model messages in a transcript: one per model call that returned.\<close>

fun model_turns :: "message list \<Rightarrow> int" where
  "model_turns [] = 0"
| "model_turns (Dict d # ms) = model_turns ms"
| "model_turns (Message m # ms) = 1 + model_turns ms"

subsection \<open>agent.py: AgentOptions and AgentWhileLoop\<close>

record AgentOptions =
  model :: string
  max_iterations :: int
  system_prompt :: string
  temperature :: real

text \<open>The request of \<open>client.chat.completions.create\<close>.\<close>

record 'p request =
  req_model :: string
  req_messages :: "message list"
  req_tools :: "'p FunctionSchema list"
  req_temperature :: real

text \<open>
  The agent: the registry \<open>tools\<close> (a dict from names to tools, in insertion order),
  the options and the client. The client is the external model: given a request it
  changes the world and returns \<open>response.choices[0].message\<close>, or raises.
\<close>

record ('a, 'p, 'd, 'w) AgentWhileLoop =
  tools :: "(string \<times> ('a, 'p, 'd, 'w) Tool) list"
  options :: AgentOptions
  client :: "'p request \<Rightarrow> 'w \<Rightarrow> (exception + ChatCompletionMessage) \<times> 'w"

text \<open>
  \<open>__init__\<close>: the dict comprehension \<open>{tool.name: tool for tool in tools}\<close> stores each
  tool under its name, in order; storing under a name that is already a key replaces the
  value and keeps the key's position.
\<close>

definition registry :: "('a, 'p, 'd, 'w) Tool list \<Rightarrow> (string \<times> ('a, 'p, 'd, 'w) Tool) list" where
  "registry ts = fold (\<lambda>tool d. AList.update (name tool) tool d) ts []"

definition init ::
  "('a, 'p, 'd, 'w) Tool list \<Rightarrow> AgentOptions \<Rightarrow>
   ('p request \<Rightarrow> 'w \<Rightarrow> (exception + ChatCompletionMessage) \<times> 'w) \<Rightarrow>
   ('a, 'p, 'd, 'w) AgentWhileLoop" where
  "init ts opts cl = \<lparr>tools = registry ts, options = opts, client = cl\<rparr>"

text \<open>
  Python's \<open>json\<close> module is not part of the repository: \<open>json.loads\<close> on the arguments
  of a call, and the two encoders that \<open>json.dumps\<close> applies inside a tool result (to
  a string, which never fails, and to a payload, which raises on a value that is not
  serializable), are parameters.
\<close>

record ('a, 'd) json_module =
  json_loads :: "string \<Rightarrow> exception + 'a"
  encode_str :: "string \<Rightarrow> string"
  encode_data :: "'d \<Rightarrow> exception + string"

text \<open>
  \<open>json.dumps\<close> of a tool result, a dict with the keys \<open>success\<close>, \<open>message\<close>, \<open>data\<close>
  in this order.
\<close>

definition json_dumps :: "('a, 'd) json_module \<Rightarrow> 'd ToolResult \<Rightarrow> exception + string" where
  "json_dumps js r =
     (case (case data r of None \<Rightarrow> Inr ''null'' | Some d \<Rightarrow> encode_data js d) of
        Inl e \<Rightarrow> Inl e
      | Inr s \<Rightarrow>
          Inr (''{\"success\": '' @ (if success r then ''true'' else ''false'')
               @ '', \"message\": '' @ encode_str js (message r)
               @ '', \"data\": '' @ s @ ''}''))"

subsection \<open>agent.py: the model call and the tool dispatch\<close>

text \<open>\<open>[tool.to_function_schema() for tool in self.tools.values()]\<close>.\<close>

definition function_schemas :: "('a, 'p, 'd, 'w) AgentWhileLoop \<Rightarrow> 'p FunctionSchema list" where
  "function_schemas ag = map (\<lambda>(n, tool). to_function_schema tool) (tools ag)"

definition get_llm_response ::
  "('a, 'p, 'd, 'w) AgentWhileLoop \<Rightarrow> message list \<Rightarrow> 'w \<Rightarrow>
   (exception + ChatCompletionMessage) \<times> 'w" where
  "get_llm_response ag msgs w =
     client ag
       \<lparr>req_model = model (options ag),
        req_messages = msgs,
        req_tools = function_schemas ag,
        req_temperature = temperature (options ag)\<rparr> w"

text \<open>The result that the \<open>except Exception as e\<close> clause builds.\<close>

definition error_result :: "string \<Rightarrow> exception \<Rightarrow> 'd ToolResult" where
  "error_result tool_name e =
     \<lparr>success = False,
      message = ''Error executing '' @ tool_name @ '': '' @ exc_str e,
      data = None\<rparr>"

definition unknown_tool :: "string \<Rightarrow> 'd ToolResult" where
  "unknown_tool tool_name =
     \<lparr>success = False, message = ''Unknown tool: '' @ tool_name, data = None\<rparr>"

text \<open>The statements inside the \<open>try\<close> of \<open>_execute_tool\<close>: \<open>json.loads\<close>, then \<open>execute\<close>.\<close>

definition try_execute ::
  "('a, 'd) json_module \<Rightarrow> ('a, 'p, 'd, 'w) Tool \<Rightarrow> ToolCall \<Rightarrow> 'w \<Rightarrow>
   (exception + 'd ToolResult) \<times> 'w" where
  "try_execute js tool tool_call w =
     (case json_loads js (function_arguments tool_call) of
        Inl e \<Rightarrow> (Inl e, w)
      | Inr arguments \<Rightarrow> execute tool arguments w)"

text \<open>
  \<open>_execute_tool\<close>: the test of the registry, then the \<open>try\<close> with its clause
  \<open>except Exception as e\<close>, which turns an \<open>Exception\<close> into a failed result and lets any
  other exception leave the function.
\<close>

definition execute_tool ::
  "('a, 'd) json_module \<Rightarrow> ('a, 'p, 'd, 'w) AgentWhileLoop \<Rightarrow> ToolCall \<Rightarrow> 'w \<Rightarrow>
   (exception + 'd ToolResult) \<times> 'w" where
  "execute_tool js ag tool_call w =
     (let tool_name = function_name tool_call in
      case map_of (tools ag) tool_name of
        None \<Rightarrow> (Inr (unknown_tool tool_name), w)
      | Some tool \<Rightarrow>
          (case try_execute js tool tool_call w of
             (Inr result, w') \<Rightarrow> (Inr result, w')
           | (Inl e, w') \<Rightarrow>
               if is_Exception e then (Inr (error_result tool_name e), w')
               else (Inl e, w')))"

subsection \<open>agent.py: run\<close>

text \<open>
  The variables of \<open>run\<close> that the body of the loop changes; \<open>done_flag\<close> is the
  variable \<open>done\<close>. The counter \<open>iteration\<close> is changed by the last statement of the body
  only and is an argument of the loop.
\<close>

record loop_state =
  messages :: "message list"
  done_flag :: bool
  tools_used :: "string list"

definition tool_message :: "string \<Rightarrow> string \<Rightarrow> message" where
  "tool_message call_id s =
     Dict [(''role'', ''tool''), (''tool_call_id'', call_id), (''content'', s)]"

text \<open>The tool turns of the calls \<open>cs\<close> with the contents \<open>ss\<close>, in the order of the calls.\<close>

definition tool_messages :: "ToolCall list \<Rightarrow> string list \<Rightarrow> message list" where
  "tool_messages cs ss = map (\<lambda>(c, s). tool_message (tool_call_id c) s) (zip cs ss)"

text \<open>
  The \<open>for\<close> loop over the tool calls of one assistant message. An exception that
  leaves \<open>_execute_tool\<close> leaves \<open>run\<close>; so does an exception of \<open>json.dumps\<close>, which is
  outside the \<open>try\<close>.
\<close>

fun execute_tool_calls ::
  "('a, 'd) json_module \<Rightarrow> ('a, 'p, 'd, 'w) AgentWhileLoop \<Rightarrow> ToolCall list \<Rightarrow>
   loop_state \<Rightarrow> 'w \<Rightarrow> (exception + loop_state) \<times> 'w" where
  "execute_tool_calls js ag [] st w = (Inr st, w)"
| "execute_tool_calls js ag (tool_call # rest) st w =
     (case execute_tool js ag tool_call w of
        (Inl e, w') \<Rightarrow> (Inl e, w')
      | (Inr tool_result, w') \<Rightarrow>
          (let st' = st\<lparr>tools_used := tools_used st @ [function_name tool_call]\<rparr> in
           case json_dumps js tool_result of
             Inl e \<Rightarrow> (Inl e, w')
           | Inr s \<Rightarrow>
               execute_tool_calls js ag rest
                 (st'\<lparr>messages := messages st' @ [tool_message (tool_call_id tool_call) s]\<rparr>)
                 w'))"

text \<open>
  The body of the \<open>while\<close> loop up to the increment of \<open>iteration\<close>: one model call
  and the branch on its message. The first branch is taken when \<open>tool_calls\<close> is a
  non-empty list, the second when it is \<open>None\<close> or empty and the content is truthy.
\<close>

definition iteration_body ::
  "('a, 'd) json_module \<Rightarrow> ('a, 'p, 'd, 'w) AgentWhileLoop \<Rightarrow> loop_state \<Rightarrow> 'w \<Rightarrow>
   (exception + loop_state) \<times> 'w" where
  "iteration_body js ag st w =
     (case get_llm_response ag (messages st) w of
        (Inl e, w') \<Rightarrow> (Inl e, w')
      | (Inr msg, w') \<Rightarrow>
          (let st1 = st\<lparr>messages := messages st @ [Message msg]\<rparr> in
           case tool_calls msg of
             Some (c # cs) \<Rightarrow> execute_tool_calls js ag (c # cs) st1 w'
           | _ \<Rightarrow>
               if truthy (content msg) then (Inr (st1\<lparr>done_flag := True\<rparr>), w')
               else (Inr st1, w')))"

text \<open>\<open>while not done and iteration < self.options.max_iterations\<close>.\<close>

function while_loop ::
  "('a, 'd) json_module \<Rightarrow> ('a, 'p, 'd, 'w) AgentWhileLoop \<Rightarrow> int \<Rightarrow> loop_state \<Rightarrow> 'w \<Rightarrow>
   (exception + int \<times> loop_state) \<times> 'w" where
  "while_loop js ag iteration st w =
     (if \<not> done_flag st \<and> iteration < max_iterations (options ag) then
        (case iteration_body js ag st w of
           (Inl e, w') \<Rightarrow> (Inl e, w')
         | (Inr st', w') \<Rightarrow> while_loop js ag (iteration + 1) st' w')
      else (Inr (iteration, st), w))"
  by pat_completeness auto
termination
  by (relation "measure (\<lambda>(js, ag, iteration, st, w). nat (max_iterations (options ag) - iteration))")
     auto

text \<open>The transcript before the loop: the system turn if the prompt is not empty, the query.\<close>

definition initial_messages :: "AgentOptions \<Rightarrow> string \<Rightarrow> message list" where
  "initial_messages opts query =
     (if system_prompt opts \<noteq> []
      then [Dict [(''role'', ''system''), (''content'', system_prompt opts)]] else [])
     @ [Dict [(''role'', ''user''), (''content'', query)]]"

definition initial_state :: "AgentOptions \<Rightarrow> string \<Rightarrow> loop_state" where
  "initial_state opts query =
     \<lparr>messages = initial_messages opts query, done_flag = False, tools_used = []\<rparr>"

text \<open>\<open>messages[-1]\<close>.\<close>

definition last_message :: "message list \<Rightarrow> exception + message" where
  "last_message ms = (if ms = [] then Inl IndexError else Inr (last ms))"

text \<open>
  The answer text of a truthy content: a string as it is, a list of parts joined from
  the \<open>text\<close> of each part that has one.
\<close>

fun answer_text :: "content \<Rightarrow> exception + string" where
  "answer_text (ContentStr s) = Inr s"
| "answer_text (ContentParts ps) =
     Inr (concat (map (\<lambda>part. case part ''text'' of Some t \<Rightarrow> t | None \<Rightarrow> []) ps))"
| "answer_text ContentNone = Inl (Exception ''TypeError'' ''NoneType object is not iterable'')"

text \<open>
  What a run gives back: the returned string, the hooks after the run, and the output
  and the metrics logged to the current span.
\<close>

record Hooks =
  metadata :: "string \<rightharpoonup> string list"

record run_result =
  returned :: string
  hooks_after :: Hooks
  span_output :: string
  span_metrics :: "(string \<times> int) list"

definition fallback_message :: "AgentOptions \<Rightarrow> string" where
  "fallback_message opts =
     ''Agent reached maximum iterations ('' @ str_int (max_iterations opts)
     @ '') without completing the task.''"

text \<open>
  The statements of \<open>run\<close> after the loop. \<open>last_message.role\<close> is an attribute access:
  on a dict it raises, on a message object it is \<open>assistant\<close>.
\<close>

definition finish ::
  "('a, 'p, 'd, 'w) AgentWhileLoop \<Rightarrow> int \<Rightarrow> loop_state \<Rightarrow> Hooks \<Rightarrow> exception + run_result" where
  "finish ag iteration st hooks =
     (case last_message (messages st) of
        Inl e \<Rightarrow> Inl e
      | Inr (Dict d) \<Rightarrow> Inl (AttributeError ''dict'' ''role'')
      | Inr (Message m) \<Rightarrow>
          if truthy (content m) then
            (case answer_text (content m) of
               Inl e \<Rightarrow> Inl e
             | Inr text \<Rightarrow>
                 Inr \<lparr>returned = text,
                      hooks_after = hooks\<lparr>metadata := (metadata hooks)(''tools_used'' \<mapsto> tools_used st)\<rparr>,
                      span_output = text,
                      span_metrics = [(''total_iterations'', iteration)]\<rparr>)
          else
            Inr \<lparr>returned = fallback_message (options ag),
                 hooks_after = hooks,
                 span_output = fallback_message (options ag),
                 span_metrics = [(''total_iterations'', iteration), (''max_iterations_reached'', 1)]\<rparr>)"

definition run ::
  "('a, 'd) json_module \<Rightarrow> ('a, 'p, 'd, 'w) AgentWhileLoop \<Rightarrow> string \<Rightarrow> Hooks \<Rightarrow> 'w \<Rightarrow>
   (exception + run_result) \<times> 'w" where
  "run js ag query hooks w =
     (case while_loop js ag 0 (initial_state (options ag) query) w of
        (Inl e, w') \<Rightarrow> (Inl e, w')
      | (Inr (iteration, st), w') \<Rightarrow> (finish ag iteration st hooks, w'))"

section \<open>Python's json module\<close>

text \<open>
  Modelled from the spec: the round trip of section 8 serializes a tool result into a
  tool turn, which \<open>run\<close> does with \<open>json.dumps\<close>, and parses it back, which no code of
  the repository does. The code of Python's \<open>json\<close> module is not among the sources; its
  encoder and its decoder are written here from the documentation of the library, for
  the values below: \<open>None\<close>, booleans, integers, strings, lists, tuples, dicts with
  string keys, and objects of a class that the encoder does not know (a set, a
  \<open>datetime\<close>). A string is a sequence of code points below 256, and the decoder
  reports an escape of a higher code point as an error. Floats are left out: the decoder
  reports a number with a fraction or an exponent, \<open>NaN\<close> and \<open>Infinity\<close> as errors.
\<close>

datatype pyval =
    PNone | PBool bool | PInt int | PStr string
  | PList "pyval list" | PTuple "pyval list"
  | PDict "(string \<times> pyval) list"
  | PObject string

text \<open>
  Modelled from the spec: \<open>json.dumps\<close> with its defaults (\<open>ensure_ascii=True\<close>, the separators \<open>", "\<close> and
  \<open>": "\<close>). In a string, the quote and the backslash are escaped, the control characters
  have their short escapes or the escape \<open>u00XX\<close>, the characters from the space to the tilde stand
  for themselves, and every other character is written with the escape \<open>u00XX\<close>.
\<close>

definition hex_digit :: "nat \<Rightarrow> char" where
  "hex_digit k = ''0123456789abcdef'' ! k"

definition escape_char :: "char \<Rightarrow> string" where
  "escape_char c =
     (if c = CHR 0x22 then [CHR 0x5C, CHR 0x22]
      else if c = CHR 0x5C then [CHR 0x5C, CHR 0x5C]
      else if c = CHR 0x0A then [CHR 0x5C, CHR ''n'']
      else if c = CHR 0x0D then [CHR 0x5C, CHR ''r'']
      else if c = CHR 0x09 then [CHR 0x5C, CHR ''t'']
      else if c = CHR 0x08 then [CHR 0x5C, CHR ''b'']
      else if c = CHR 0x0C then [CHR 0x5C, CHR ''f'']
      else if 0x20 \<le> (of_char c :: nat) \<and> (of_char c :: nat) \<le> 0x7E then [c]
      else [CHR 0x5C, CHR ''u'', CHR ''0'', CHR ''0'',
            hex_digit ((of_char c :: nat) div 16), hex_digit ((of_char c :: nat) mod 16)])"

definition py_encode_str :: "string \<Rightarrow> string" where
  "py_encode_str s = [CHR 0x22] @ concat (map escape_char s) @ [CHR 0x22]"

fun join_items :: "string list \<Rightarrow> string" where
  "join_items [] = []"
| "join_items [x] = x"
| "join_items (x # y # ys) = x @ '', '' @ join_items (y # ys)"

text \<open>
  Modelled from the spec: the document of a value. A tuple is written as a list is. The
  encoder raises \<open>TypeError\<close> on an object it does not know, at any depth, and writes
  no document then.
\<close>

fun render :: "pyval \<Rightarrow> string" where
  "render PNone = ''null''"
| "render (PBool b) = (if b then ''true'' else ''false'')"
| "render (PInt i) = str_int i"
| "render (PStr s) = py_encode_str s"
| "render (PList xs) = ''['' @ join_items (map render xs) @ '']''"
| "render (PTuple xs) = ''['' @ join_items (map render xs) @ '']''"
| "render (PDict kvs) =
     ''{'' @ join_items (map (\<lambda>kv. py_encode_str (fst kv) @ '': '' @ render (snd kv)) kvs) @ ''}''"
| "render (PObject c) = []"

definition render_member :: "string \<times> pyval \<Rightarrow> string" where
  "render_member kv = py_encode_str (fst kv) @ '': '' @ render (snd kv)"

fun serializable :: "pyval \<Rightarrow> bool" where
  "serializable (PList xs) = list_all serializable xs"
| "serializable (PTuple xs) = list_all serializable xs"
| "serializable (PDict kvs) = list_all (\<lambda>kv. serializable (snd kv)) kvs"
| "serializable (PObject c) = False"
| "serializable v = True"

definition py_encode_data :: "pyval \<Rightarrow> exception + string" where
  "py_encode_data v =
     (if serializable v then Inr (render v)
      else Inl (Exception ''TypeError'' ''Object is not JSON serializable''))"

text \<open>
  Modelled from the spec: \<open>json.loads\<close>: white space, the escapes of a string (a raw control character is an
  error), and an integer literal, which has no leading zero.
\<close>

definition is_ws :: "char \<Rightarrow> bool" where
  "is_ws c = (c = CHR '' '' \<or> c = CHR 0x09 \<or> c = CHR 0x0A \<or> c = CHR 0x0D)"

definition skip_ws :: "string \<Rightarrow> string" where
  "skip_ws = dropWhile is_ws"

definition is_digit :: "char \<Rightarrow> bool" where
  "is_digit c = (48 \<le> (of_char c :: nat) \<and> (of_char c :: nat) \<le> 57)"

definition digit_val :: "char \<Rightarrow> nat" where
  "digit_val c = of_char c - 48"

definition hex_val :: "char \<Rightarrow> nat option" where
  "hex_val c =
     (let n = (of_char c :: nat) in
      if 48 \<le> n \<and> n \<le> 57 then Some (n - 48)
      else if 97 \<le> n \<and> n \<le> 102 then Some (n - 87)
      else if 65 \<le> n \<and> n \<le> 70 then Some (n - 55)
      else None)"

definition unescape :: "char \<Rightarrow> char option" where
  "unescape e =
     (if e = CHR 0x22 then Some (CHR 0x22)
      else if e = CHR 0x5C then Some (CHR 0x5C)
      else if e = CHR ''/'' then Some (CHR ''/'')
      else if e = CHR ''b'' then Some (CHR 0x08)
      else if e = CHR ''f'' then Some (CHR 0x0C)
      else if e = CHR ''n'' then Some (CHR 0x0A)
      else if e = CHR ''r'' then Some (CHR 0x0D)
      else if e = CHR ''t'' then Some (CHR 0x09)
      else None)"

fun parse_chars :: "string \<Rightarrow> (string \<times> string) option" where
  "parse_chars [] = None"
| "parse_chars (c # cs) =
     (if c = CHR 0x22 then Some ([], cs)
      else if c = CHR 0x5C then
        (case cs of
           [] \<Rightarrow> None
         | e # es \<Rightarrow>
             if e = CHR ''u'' then
               (case es of
                  h1 # h2 # h3 # h4 # rest \<Rightarrow>
                    (case (hex_val h1, hex_val h2, hex_val h3, hex_val h4) of
                       (Some a, Some b, Some c', Some d) \<Rightarrow>
                         (let code = ((a * 16 + b) * 16 + c') * 16 + d in
                          if code < 256
                          then map_option (apfst ((#) (char_of code))) (parse_chars rest)
                          else None)
                     | _ \<Rightarrow> None)
                | _ \<Rightarrow> None)
             else
               (case unescape e of
                  None \<Rightarrow> None
                | Some d \<Rightarrow> map_option (apfst ((#) d)) (parse_chars es)))
      else if (of_char c :: nat) < 0x20 then None
      else map_option (apfst ((#) c)) (parse_chars cs))"

definition nat_of_digits :: "string \<Rightarrow> nat" where
  "nat_of_digits ds = foldl (\<lambda>n c. 10 * n + digit_val c) 0 ds"

definition parse_digits :: "bool \<Rightarrow> string \<Rightarrow> (int \<times> string) option" where
  "parse_digits negative s =
     (let ds = takeWhile is_digit s; rest = dropWhile is_digit s in
      case ds of
        [] \<Rightarrow> None
      | d # ds' \<Rightarrow>
          if d = CHR ''0'' \<and> ds' \<noteq> [] then None
          else
            (case rest of
               [] \<Rightarrow> Some (if negative then - int (nat_of_digits ds) else int (nat_of_digits ds), rest)
             | c # cs \<Rightarrow>
                 if c = CHR ''.'' \<or> c = CHR ''e'' \<or> c = CHR ''E'' then None
                 else Some (if negative then - int (nat_of_digits ds) else int (nat_of_digits ds),
                            rest)))"

definition parse_number :: "string \<Rightarrow> (int \<times> string) option" where
  "parse_number s =
     (case s of
        [] \<Rightarrow> None
      | c # cs \<Rightarrow> if c = CHR ''-'' then parse_digits True cs else parse_digits False s)"

text \<open>
  Modelled from the spec: \<open>dict(pairs)\<close>, as the decoder builds an object: a later pair of a key replaces the
  value and keeps the position of the key.
\<close>

definition dict_of :: "(string \<times> pyval) list \<Rightarrow> (string \<times> pyval) list" where
  "dict_of pairs = fold (\<lambda>kv d. AList.update (fst kv) (snd kv) d) pairs []"

text \<open>
  Modelled from the spec: the recursive descent over a value, the elements of a list after its bracket and the
  members of an object after its brace. The first argument bounds the depth of the
  calls; \<open>json.loads\<close> starts with the length of the text, which the round trip below
  shows to be enough for every document that the encoder writes.
\<close>

fun parse_value :: "nat \<Rightarrow> string \<Rightarrow> (pyval \<times> string) option"
  and parse_elements :: "nat \<Rightarrow> string \<Rightarrow> (pyval list \<times> string) option"
  and parse_members :: "nat \<Rightarrow> string \<Rightarrow> ((string \<times> pyval) list \<times> string) option" where
  "parse_value 0 s = None"
| "parse_value (Suc n) s =
     (case s of
        [] \<Rightarrow> None
      | c # cs \<Rightarrow>
          if c = CHR ''['' then
            (case skip_ws cs of
               [] \<Rightarrow> None
             | d # ds \<Rightarrow>
                 if d = CHR '']'' then Some (PList [], ds)
                 else map_option (apfst PList) (parse_elements n (d # ds)))
          else if c = CHR ''{'' then
            (case skip_ws cs of
               [] \<Rightarrow> None
             | d # ds \<Rightarrow>
                 if d = CHR ''}'' then Some (PDict [], ds)
                 else map_option (apfst (\<lambda>pairs. PDict (dict_of pairs))) (parse_members n (d # ds)))
          else if c = CHR 0x22 then map_option (apfst PStr) (parse_chars cs)
          else if take 4 s = ''null'' then Some (PNone, drop 4 s)
          else if take 4 s = ''true'' then Some (PBool True, drop 4 s)
          else if take 5 s = ''false'' then Some (PBool False, drop 5 s)
          else map_option (apfst PInt) (parse_number s))"
| "parse_elements 0 s = None"
| "parse_elements (Suc n) s =
     (case parse_value n s of
        None \<Rightarrow> None
      | Some (v, rest) \<Rightarrow>
          (case skip_ws rest of
             [] \<Rightarrow> None
           | d # ds \<Rightarrow>
               if d = CHR '']'' then Some ([v], ds)
               else if d = CHR '','' then
                 map_option (apfst ((#) v)) (parse_elements n (skip_ws ds))
               else None))"
| "parse_members 0 s = None"
| "parse_members (Suc n) s =
     (case s of
        [] \<Rightarrow> None
      | q # cs \<Rightarrow>
          if q \<noteq> CHR 0x22 then None
          else
            (case parse_chars cs of
               None \<Rightarrow> None
             | Some (k, r0) \<Rightarrow>
                 (case skip_ws r0 of
                    [] \<Rightarrow> None
                  | colon # r1 \<Rightarrow>
                      if colon \<noteq> CHR '':'' then None
                      else
                        (case parse_value n (skip_ws r1) of
                           None \<Rightarrow> None
                         | Some (v, r2) \<Rightarrow>
                             (case skip_ws r2 of
                                [] \<Rightarrow> None
                              | d # ds \<Rightarrow>
                                  if d = CHR ''}'' then Some ([(k, v)], ds)
                                  else if d = CHR '','' then
                                    map_option (apfst ((#) (k, v)))
                                      (parse_members n (skip_ws ds))
                                  else None)))))"

definition py_json_loads :: "string \<Rightarrow> exception + pyval" where
  "py_json_loads s =
     (case parse_value (length s) (skip_ws s) of
        None \<Rightarrow> Inl (Exception ''JSONDecodeError'' ''Expecting value'')
      | Some (v, rest) \<Rightarrow>
          if skip_ws rest = [] then Inr v
          else Inl (Exception ''JSONDecodeError'' ''Extra data''))"

text \<open>Modelled from the spec: the module as the agent uses it.\<close>

definition python_json :: "(pyval, pyval) json_module" where
  "python_json =
     \<lparr>json_loads = py_json_loads, encode_str = py_encode_str, encode_data = py_encode_data\<rparr>"

text \<open>
  What the decoder gives back for the document of a value: tuples have become lists.
  The values that come back as they are have no tuple and no unknown object, and their
  dicts have distinct keys, as every Python dict has.
\<close>

fun reloaded :: "pyval \<Rightarrow> pyval" where
  "reloaded (PList xs) = PList (map reloaded xs)"
| "reloaded (PTuple xs) = PList (map reloaded xs)"
| "reloaded (PDict kvs) = PDict (dict_of (map (\<lambda>kv. (fst kv, reloaded (snd kv))) kvs))"
| "reloaded v = v"

fun json_native :: "pyval \<Rightarrow> bool" where
  "json_native (PList xs) = list_all json_native xs"
| "json_native (PTuple xs) = False"
| "json_native (PDict kvs) =
     (distinct (map fst kvs) \<and> list_all (\<lambda>kv. json_native (snd kv)) kvs)"
| "json_native (PObject c) = False"
| "json_native v = True"

text \<open>
  The depth of calls that the decoder needs for the document of a value, the characters
  that may follow a value in a document, and those that may open one.
\<close>

fun fuel_needed :: "pyval \<Rightarrow> nat" where
  "fuel_needed (PList xs) = 1 + sum_list (map (\<lambda>x. 1 + fuel_needed x) xs)"
| "fuel_needed (PTuple xs) = 1 + sum_list (map (\<lambda>x. 1 + fuel_needed x) xs)"
| "fuel_needed (PDict kvs) = 1 + sum_list (map (\<lambda>kv. 1 + fuel_needed (snd kv)) kvs)"
| "fuel_needed v = 1"

fun delim :: "string \<Rightarrow> bool" where
  "delim [] = True"
| "delim (c # cs) = (c = CHR '','' \<or> c = CHR '']'' \<or> c = CHR ''}'')"

definition opens_value :: "char \<Rightarrow> bool" where
  "opens_value c = (\<not> is_ws c \<and> c \<noteq> CHR '']'' \<and> c \<noteq> CHR ''}'')"

text \<open>
  A tool result as the Python dict it is, and the content of a tool turn of the
  transcript.
\<close>

definition as_dict :: "pyval ToolResult \<Rightarrow> pyval" where
  "as_dict r =
     PDict [(''success'', PBool (success r)),
            (''message'', PStr (message r)),
            (''data'', case data r of None \<Rightarrow> PNone | Some d \<Rightarrow> d)]"

fun turn_content :: "message \<Rightarrow> string option" where
  "turn_content (Dict d) = map_of d ''content''"
| "turn_content (Message m) = None"

section \<open>Example agents\<close>

text \<open>
  A world for the examples: the number of model calls made so far and the log of the
  tools executed. Keyword arguments and payloads are kept as text.
\<close>

type_synonym world = "nat \<times> string list"

definition example_json :: "(string, string) json_module" where
  "example_json =
     \<lparr>json_loads = (\<lambda>s. if s = ''{'' then Inl (Exception ''JSONDecodeError'' ''Expecting property name'')
                         else Inr s),
      encode_str = (\<lambda>s. ''\"'' @ s @ ''\"''),
      encode_data = (\<lambda>d. if d = ''<object>'' then Inl (Exception ''TypeError'' ''not JSON serializable'')
                          else Inr d)\<rparr>"

definition search_users :: "(string, unit, string, world) Tool" where
  "search_users =
     \<lparr>name = ''search_users'',
      description = ''Search for users using business-relevant criteria'',
      parameters = (),
      execute = (\<lambda>args (n, log).
         (Inr \<lparr>success = True, message = ''Found 1 user(s) matching criteria'',
               data = Some ''{\"total_count\": 1}''\<rparr>,
          (n, log @ [''search_users''])))\<rparr>"

definition failing_tool :: "(string, unit, string, world) Tool" where
  "failing_tool =
     \<lparr>name = ''notify_customer'',
      description = ''Send a notification to a customer'',
      parameters = (),
      execute = (\<lambda>args (n, log).
         (Inl (Exception ''RuntimeError'' ''service down''), (n, log @ [''notify_customer''])))\<rparr>"

text \<open>A tool whose task is cancelled while it runs, as under a deadline of the caller.\<close>

definition cancelled_tool :: "(string, unit, string, world) Tool" where
  "cancelled_tool =
     \<lparr>name = ''update_subscription'',
      description = ''Update the subscription plan or status of a user'',
      parameters = (),
      execute = (\<lambda>args (n, log).
         (Inl (BaseExceptionOnly ''CancelledError'' []), (n, log @ [''update_subscription''])))\<rparr>"

definition other_search :: "(string, unit, string, world) Tool" where
  "other_search =
     \<lparr>name = ''search_users'',
      description = ''A second tool registered under the same name'',
      parameters = (),
      execute = (\<lambda>args (n, log).
         (Inr \<lparr>success = True, message = ''Found 0 user(s) matching criteria'', data = None\<rparr>,
          (n, log @ [''other_search''])))\<rparr>"

text \<open>A model that answers its \<open>n\<close>-th call with the \<open>n\<close>-th message of a script.\<close>

definition scripted ::
  "ChatCompletionMessage list \<Rightarrow> unit request \<Rightarrow> world \<Rightarrow>
   (exception + ChatCompletionMessage) \<times> world" where
  "scripted script req =
     (\<lambda>(n, log).
        (if n < length script then Inr (script ! n)
         else Inl (Exception ''APIError'' ''no response''),
         (n + 1, log)))"

definition call :: "string \<Rightarrow> string \<Rightarrow> ToolCall" where
  "call i n = \<lparr>tool_call_id = i, function_name = n, function_arguments = ''{}''\<rparr>"

definition requests :: "ToolCall list \<Rightarrow> ChatCompletionMessage" where
  "requests cs = \<lparr>content = ContentNone, tool_calls = Some cs\<rparr>"

definition says :: "string \<Rightarrow> ChatCompletionMessage" where
  "says s = \<lparr>content = ContentStr s, tool_calls = None\<rparr>"

text \<open>A message with text and a tool call at once.\<close>

definition thinking_aloud :: ChatCompletionMessage where
  "thinking_aloud =
     \<lparr>content = ContentStr ''Let me check.'',
      tool_calls = Some [\<lparr>tool_call_id = ''call_1'', function_name = ''search_users'',
                          function_arguments = ''{}''\<rparr>]\<rparr>"

definition silent :: ChatCompletionMessage where
  "silent = \<lparr>content = ContentNone, tool_calls = None\<rparr>"

definition example_options :: "int \<Rightarrow> AgentOptions" where
  "example_options n =
     \<lparr>model = ''gpt-4'', max_iterations = n, system_prompt = [], temperature = 1 / 10\<rparr>"

definition example_agent ::
  "int \<Rightarrow> ChatCompletionMessage list \<Rightarrow> (string, unit, string, world) AgentWhileLoop" where
  "example_agent n script =
     init [search_users, failing_tool, cancelled_tool] (example_options n) (scripted script)"

definition no_hooks :: Hooks where
  "no_hooks = \<lparr>metadata = Map.empty\<rparr>"

text \<open>
  The scenario of the specification: the first turn requests \<open>search_users\<close>, the second
  answers \<open>Done.\<close>; and the transcript of its run.
\<close>

definition done_script :: "ChatCompletionMessage list" where
  "done_script = [requests [call ''call_1'' ''search_users''], says ''Done.'']"

definition search_users_content :: string where
  "search_users_content =
     ''{\"success\": true, \"message\": \"Found 1 user(s) matching criteria\", \"data\": {\"total_count\": 1}}''"

definition done_transcript :: "message list" where
  "done_transcript =
     [Dict [(''role'', ''user''), (''content'', ''query'')],
      Message (requests [call ''call_1'' ''search_users'']),
      tool_message ''call_1'' search_users_content,
      Message (says ''Done.'')]"

text \<open>
  The result of \<open>SearchUsersTool.execute\<close> with no arguments, and a result whose payload
  holds a tuple.
\<close>

definition search_result :: "pyval ToolResult" where
  "search_result =
     \<lparr>success = True,
      message = ''Found 1 user(s) matching criteria'',
      data = Some (PDict
        [(''users'', PList [PDict [(''user_id'', PStr ''user_123''),
                                   (''email'', PStr ''john@example.com''),
                                   (''subscription_status'', PStr ''active''),
                                   (''account_type'', PStr ''pro'')]]),
         (''total_count'', PInt 1)])\<rparr>"

definition tuple_result :: "pyval ToolResult" where
  "tuple_result =
     \<lparr>success = True,
      message = ''Found 2 user(s) matching criteria'',
      data = Some (PDict [(''user_ids'', PTuple [PInt 1, PInt 2])])\<rparr>"

section \<open>Properties of the loop\<close>

subsection \<open>Shared lemmas\<close>

lemma requested_names_append:
  "requested_names (xs @ ys) = requested_names xs @ requested_names ys"
  by (induction xs rule: requested_names.induct) auto

lemma model_turns_append: "model_turns (xs @ ys) = model_turns xs + model_turns ys"
  by (induction xs rule: model_turns.induct) auto

lemma requested_names_tool_messages: "requested_names (tool_messages cs ss) = []"
  unfolding tool_messages_def
  by (induction cs arbitrary: ss) (auto simp: tool_message_def zip_Cons1 split: list.splits)

lemma model_turns_tool_messages: "model_turns (tool_messages cs ss) = 0"
  unfolding tool_messages_def
  by (induction cs arbitrary: ss) (auto simp: tool_message_def zip_Cons1 split: list.splits)

text \<open>
  A \<open>for\<close> loop that ends normally has logged the name of every call and appended one
  tool turn per call, in the order of the calls.
\<close>

lemma execute_tool_calls_Inr:
  "execute_tool_calls js ag cs st w = (Inr st', w') \<Longrightarrow>
   tools_used st' = tools_used st @ map function_name cs \<and>
   done_flag st' = done_flag st \<and>
   (\<exists>ss. length ss = length cs \<and> messages st' = messages st @ tool_messages cs ss)"
proof (induction cs arbitrary: st w)
  case Nil
  then show ?case by (simp add: tool_messages_def)
next
  case (Cons c cs)
  obtain x w1 where ex0: "execute_tool js ag c w = (x, w1)"
    by (cases "execute_tool js ag c w")
  with Cons.prems obtain r where ex: "execute_tool js ag c w = (Inr r, w1)"
    by (cases x) auto
  from Cons.prems ex obtain s where d: "json_dumps js r = Inr s"
    by (cases "json_dumps js r") (auto simp: Let_def)
  let ?st1 = "st\<lparr>tools_used := tools_used st @ [function_name c],
                 messages := messages st @ [tool_message (tool_call_id c) s]\<rparr>"
  from Cons.prems ex d have rest: "execute_tool_calls js ag cs ?st1 w1 = (Inr st', w')"
    by (simp add: Let_def)
  from Cons.IH[OF rest] obtain ss where ss: "length ss = length cs"
     "messages st' = messages ?st1 @ tool_messages cs ss"
     and u: "tools_used st' = tools_used ?st1 @ map function_name cs"
       "done_flag st' = done_flag ?st1"
    by blast
  have "length (s # ss) = length (c # cs)" using ss by simp
  moreover have "messages st' = messages st @ tool_messages (c # cs) (s # ss)"
    using ss by (simp add: tool_messages_def)
  ultimately show ?case using u by (intro conjI exI[of _ "s # ss"]) simp_all
qed

text \<open>The two ways in which the body of the loop ends normally.\<close>

lemma iteration_body_Inr:
  assumes "iteration_body js ag st w = (Inr st', w')"
  obtains msg w1 where "get_llm_response ag (messages st) w = (Inr msg, w1)"
    and "(\<exists>c cs. tool_calls msg = Some (c # cs) \<and>
            execute_tool_calls js ag (c # cs) (st\<lparr>messages := messages st @ [Message msg]\<rparr>) w1
              = (Inr st', w'))
         \<or> ((tool_calls msg = None \<or> tool_calls msg = Some []) \<and> w' = w1 \<and>
             st' = st\<lparr>messages := messages st @ [Message msg],
                       done_flag := (truthy (content msg) \<or> done_flag st)\<rparr>)"
proof -
  obtain r w1 where g: "get_llm_response ag (messages st) w = (r, w1)"
    by (cases "get_llm_response ag (messages st) w")
  with assms obtain msg where r: "r = Inr msg"
    by (cases r) (auto simp: iteration_body_def)
  show thesis
  proof (rule that[of msg w1])
    show "get_llm_response ag (messages st) w = (Inr msg, w1)" using g r by simp
    show "(\<exists>c cs. tool_calls msg = Some (c # cs) \<and>
            execute_tool_calls js ag (c # cs) (st\<lparr>messages := messages st @ [Message msg]\<rparr>) w1
              = (Inr st', w'))
         \<or> ((tool_calls msg = None \<or> tool_calls msg = Some []) \<and> w' = w1 \<and>
             st' = st\<lparr>messages := messages st @ [Message msg],
                       done_flag := (truthy (content msg) \<or> done_flag st)\<rparr>)"
      using assms g r
      by (auto simp: iteration_body_def Let_def split: option.splits list.splits if_splits)
  qed
qed

lemma iteration_body_invariant:
  assumes "iteration_body js ag st w = (Inr st', w')"
  shows "model_turns (messages st') = model_turns (messages st) + 1"
    and "tools_used st = requested_names (messages st) \<Longrightarrow>
         tools_used st' = requested_names (messages st')"
proof -
  from assms obtain msg w1 where
    alt: "(\<exists>c cs. tool_calls msg = Some (c # cs) \<and>
            execute_tool_calls js ag (c # cs) (st\<lparr>messages := messages st @ [Message msg]\<rparr>) w1
              = (Inr st', w'))
         \<or> ((tool_calls msg = None \<or> tool_calls msg = Some []) \<and> w' = w1 \<and>
             st' = st\<lparr>messages := messages st @ [Message msg],
                       done_flag := (truthy (content msg) \<or> done_flag st)\<rparr>)"
    by (rule iteration_body_Inr)
  show "model_turns (messages st') = model_turns (messages st) + 1"
    using alt
    by (auto dest!: execute_tool_calls_Inr simp: model_turns_append model_turns_tool_messages
        simp del: execute_tool_calls.simps)
  show "tools_used st' = requested_names (messages st')"
    if "tools_used st = requested_names (messages st)"
    using alt that
    by (auto dest!: execute_tool_calls_Inr
        simp: requested_names_append requested_names_tool_messages
        simp del: execute_tool_calls.simps)
qed

text \<open>What every iteration keeps, by induction on the run of the loop.\<close>

lemma while_loop_invariant:
  "while_loop js ag i st w = (Inr (i', st'), w') \<Longrightarrow>
   model_turns (messages st') - i' = model_turns (messages st) - i \<and>
   (tools_used st = requested_names (messages st) \<longrightarrow>
      tools_used st' = requested_names (messages st')) \<and>
   (i \<le> max_iterations (options ag) \<longrightarrow> i' \<le> max_iterations (options ag)) \<and>
   i \<le> i'"
proof (induction js ag i st w rule: while_loop.induct)
  case (1 js ag i st w)
  show ?case
  proof (cases "\<not> done_flag st \<and> i < max_iterations (options ag)")
    case False
    with "1.prems" have "i' = i" "st' = st"
      by (simp_all add: while_loop.simps[of js ag i st w])
    then show ?thesis by simp
  next
    case True
    obtain r w1 where b: "iteration_body js ag st w = (r, w1)"
      by (cases "iteration_body js ag st w")
    with True "1.prems" obtain st1 where r: "r = Inr st1"
      by (cases r) (auto simp: while_loop.simps[of js ag i st w])
    with True b "1.prems" have rest: "while_loop js ag (i + 1) st1 w1 = (Inr (i', st'), w')"
      by (simp add: while_loop.simps[of js ag i st w])
    have ih: "model_turns (messages st') - i' = model_turns (messages st1) - (i + 1) \<and>
      (tools_used st1 = requested_names (messages st1) \<longrightarrow>
         tools_used st' = requested_names (messages st')) \<and>
      (i + 1 \<le> max_iterations (options ag) \<longrightarrow> i' \<le> max_iterations (options ag)) \<and>
      i + 1 \<le> i'"
      using "1.IH"[OF True b[symmetric] r rest] .
    from b r have body: "iteration_body js ag st w = (Inr st1, w1)" by simp
    show ?thesis
      using ih iteration_body_invariant[OF body] True by auto
  qed
qed

lemma initial_state_facts:
  "model_turns (messages (initial_state opts query)) = 0"
  "requested_names (messages (initial_state opts query)) = []"
  "tools_used (initial_state opts query) = []"
  "\<not> done_flag (initial_state opts query)"
  by (simp_all add: initial_state_def initial_messages_def)

text \<open>The evaluation of the examples unfolds these definitions.\<close>

lemmas example_defs =
  example_agent_def init_def registry_def example_options_def example_json_def
  search_users_def failing_tool_def cancelled_tool_def other_search_def scripted_def call_def requests_def
  says_def silent_def thinking_aloud_def no_hooks_def done_script_def done_transcript_def
  search_users_content_def

lemmas run_defs =
  run_def initial_state_def initial_messages_def iteration_body_def get_llm_response_def
  function_schemas_def to_function_schema_def execute_tool_def try_execute_def unknown_tool_def
  error_result_def json_dumps_def tool_message_def finish_def last_message_def
  fallback_message_def str_int_def

subsection \<open>The iteration counter\<close>

text \<open>
  C6. With a cap that is not negative, the counter \<open>iteration\<close> at the exit of the loop is
  at most \<open>max_iterations\<close>; it is the number of iterations executed, that is the number
  of model messages that the run appended to the transcript; and whenever the statements
  after the loop return, the metric \<open>total_iterations\<close> they log is that counter.
\<close>

theorem iteration_bounded_and_reported:
  assumes "0 \<le> max_iterations (options ag)"
    and "while_loop js ag 0 (initial_state (options ag) query) w = (Inr (iteration, st), w')"
  shows "iteration \<le> max_iterations (options ag) \<and>
         iteration = model_turns (messages st) \<and>
         (\<forall>hooks res. finish ag iteration st hooks = Inr res \<longrightarrow>
            map_of (span_metrics res) ''total_iterations'' = Some iteration)"
proof -
  from while_loop_invariant[OF assms(2)] assms(1)
  have "iteration \<le> max_iterations (options ag)" and "iteration = model_turns (messages st)"
    by (simp_all add: initial_state_facts)
  moreover have "map_of (span_metrics res) ''total_iterations'' = Some iteration"
    if "finish ag iteration st hooks = Inr res" for hooks res
    using that
    by (auto simp: finish_def split: sum.splits message.splits if_splits)
  ultimately show ?thesis by blast
qed

theorem iteration_bounded_and_reported_witness:
  "0 \<le> max_iterations (options (example_agent 2 done_script)) \<and>
   while_loop example_json (example_agent 2 done_script) 0
     (initial_state (options (example_agent 2 done_script)) ''query'') (0, [])
     = (Inr (2, \<lparr>messages = done_transcript, done_flag = True, tools_used = [''search_users'']\<rparr>),
        (2, [''search_users''])) \<and>
   2 \<le> max_iterations (options (example_agent 2 done_script)) \<and>
   2 = model_turns done_transcript \<and>
   (\<exists>res. finish (example_agent 2 done_script) 2
            \<lparr>messages = done_transcript, done_flag = True, tools_used = [''search_users'']\<rparr>
            no_hooks = Inr res \<and>
          map_of (span_metrics res) ''total_iterations'' = Some 2)"
proof -
  let ?ag = "example_agent 2 done_script"
  let ?st = "\<lparr>messages = done_transcript, done_flag = True, tools_used = [''search_users'']\<rparr>"
  have h1: "0 \<le> max_iterations (options ?ag)"
    by (simp add: example_defs)
  have h2: "while_loop example_json ?ag 0 (initial_state (options ?ag) ''query'') (0, [])
              = (Inr (2, ?st), (2, [''search_users'']))"
    by (simp add: example_defs run_defs)
  have h3: "\<exists>res. finish ?ag 2 ?st no_hooks = Inr res"
    by (simp add: example_defs run_defs)
  from iteration_bounded_and_reported[OF h1 h2] h1 h2 h3 show ?thesis
    by auto
qed

subsection \<open>A first answer without tool calls\<close>

text \<open>
  C7. If the first model message carries no tool calls (\<open>None\<close> or an empty list) and its
  content is a non-empty string, and the cap allows one iteration, the loop exits after
  exactly one iteration and \<open>run\<close> returns that string as it is.
\<close>

theorem first_answer_is_returned:
  assumes "1 \<le> max_iterations (options ag)"
    and "get_llm_response ag (initial_messages (options ag) query) w = (Inr msg, w')"
    and "tool_calls msg = None \<or> tool_calls msg = Some []"
    and "content msg = ContentStr text"
    and "text \<noteq> []"
  shows "while_loop js ag 0 (initial_state (options ag) query) w =
           (Inr (1, \<lparr>messages = initial_messages (options ag) query @ [Message msg],
                      done_flag = True, tools_used = []\<rparr>), w') \<and>
         run js ag query hooks w =
           (Inr \<lparr>returned = text,
                 hooks_after = hooks\<lparr>metadata := (metadata hooks)(''tools_used'' \<mapsto> [])\<rparr>,
                 span_output = text,
                 span_metrics = [(''total_iterations'', 1)]\<rparr>, w')"
proof -
  let ?st0 = "initial_state (options ag) query"
  let ?st1 = "\<lparr>messages = initial_messages (options ag) query @ [Message msg],
               done_flag = True, tools_used = []\<rparr>"
  have body: "iteration_body js ag ?st0 w = (Inr ?st1, w')"
    using assms(2-5)
    by (auto simp: iteration_body_def initial_state_def Let_def)
  have guard: "\<not> done_flag ?st0 \<and> 0 < max_iterations (options ag)"
    using assms(1) by (simp add: initial_state_def)
  have loop: "while_loop js ag 0 ?st0 w = (Inr (1, ?st1), w')"
    using guard body
    by (simp add: while_loop.simps[of js ag 0 ?st0 w] while_loop.simps[of js ag 1 ?st1 w'])
  have fin: "finish ag 1 ?st1 hooks =
      Inr \<lparr>returned = text,
           hooks_after = hooks\<lparr>metadata := (metadata hooks)(''tools_used'' \<mapsto> [])\<rparr>,
           span_output = text,
           span_metrics = [(''total_iterations'', 1)]\<rparr>"
    using assms(4,5) by (simp add: finish_def last_message_def)
  show ?thesis using loop fin by (simp add: run_def)
qed

theorem first_answer_is_returned_witness:
  "while_loop example_json (example_agent 10 [says ''Hello.'']) 0
     (initial_state (options (example_agent 10 [says ''Hello.''])) ''query'') (0, [])
   = (Inr (1, \<lparr>messages =
                  initial_messages (options (example_agent 10 [says ''Hello.''])) ''query''
                  @ [Message (says ''Hello.'')],
                done_flag = True, tools_used = []\<rparr>), (1, [])) \<and>
   run example_json (example_agent 10 [says ''Hello.'']) ''query'' no_hooks (0, [])
   = (Inr \<lparr>returned = ''Hello.'',
           hooks_after = no_hooks\<lparr>metadata := (metadata no_hooks)(''tools_used'' \<mapsto> [])\<rparr>,
           span_output = ''Hello.'',
           span_metrics = [(''total_iterations'', 1)]\<rparr>, (1, []))"
proof -
  let ?ag = "example_agent 10 [says ''Hello.'']"
  have h1: "1 \<le> max_iterations (options ?ag)"
    by (simp add: example_defs)
  have h2: "get_llm_response ?ag (initial_messages (options ?ag) ''query'') (0, [])
              = (Inr (says ''Hello.''), (1, []))"
    by (simp add: example_defs get_llm_response_def)
  have h3: "tool_calls (says ''Hello.'') = None \<or> tool_calls (says ''Hello.'') = Some []"
    by (simp add: says_def)
  have h4: "content (says ''Hello.'') = ContentStr ''Hello.''"
    by (simp add: says_def)
  have h5: "''Hello.'' \<noteq> []"
    by simp
  show ?thesis
    by (rule first_answer_is_returned[OF h1 h2 h3 h4 h5])
qed

subsection \<open>A run that stops on a tool turn\<close>

text \<open>
  After a tool turn the last entry of the transcript is a dict, on which the attribute
  access of \<open>last_message.role\<close> raises.
\<close>

lemma finish_after_tool_turn:
  assumes "messages st \<noteq> []" and "last (messages st) = Dict d"
  shows "finish ag iteration st hooks = Inl (AttributeError ''dict'' ''role'')"
  using assms by (simp add: finish_def last_message_def)

lemma last_tool_messages:
  assumes "cs \<noteq> []" and "length ss = length cs"
  shows "\<exists>d. last (ms @ tool_messages cs ss) = Dict d"
proof -
  from assms have ne: "tool_messages cs ss \<noteq> []"
    by (cases cs; cases ss) (auto simp: tool_messages_def)
  have "\<forall>m \<in> set (tool_messages cs ss). \<exists>d. m = Dict d"
    by (auto simp: tool_messages_def tool_message_def)
  with ne show ?thesis
    by (metis last_appendR last_in_set)
qed

text \<open>
  With a model that requests a tool call in every message, a loop that exits has run up
  to the cap, has not set \<open>done\<close>, and has a tool turn as the last entry.
\<close>

lemma always_requesting_loop:
  "while_loop js ag i st w = (Inr (i', st'), w') \<Longrightarrow>
   (\<And>msgs w m w1. get_llm_response ag msgs w = (Inr m, w1) \<Longrightarrow>
      \<exists>c cs. tool_calls m = Some (c # cs)) \<Longrightarrow>
   \<not> done_flag st \<Longrightarrow> messages st \<noteq> [] \<Longrightarrow> (\<exists>d. last (messages st) = Dict d) \<Longrightarrow>
   \<not> done_flag st' \<and> messages st' \<noteq> [] \<and> (\<exists>d. last (messages st') = Dict d) \<and>
   i' = max i (max_iterations (options ag))"
proof (induction js ag i st w rule: while_loop.induct)
  case (1 js ag i st w)
  show ?case
  proof (cases "i < max_iterations (options ag)")
    case False
    with "1.prems" have "i' = i" "st' = st"
      by (simp_all add: while_loop.simps[of js ag i st w])
    with False "1.prems" show ?thesis by simp
  next
    case True
    with "1.prems" have guard: "\<not> done_flag st \<and> i < max_iterations (options ag)" by simp
    obtain r w1 where b: "iteration_body js ag st w = (r, w1)"
      by (cases "iteration_body js ag st w")
    with guard "1.prems" obtain st1 where r: "r = Inr st1"
      by (cases r) (auto simp: while_loop.simps[of js ag i st w])
    with guard b "1.prems" have rest: "while_loop js ag (i + 1) st1 w1 = (Inr (i', st'), w')"
      by (simp add: while_loop.simps[of js ag i st w])
    from b r have body: "iteration_body js ag st w = (Inr st1, w1)" by simp
    from body obtain msg w0 where g: "get_llm_response ag (messages st) w = (Inr msg, w0)"
      and alt: "(\<exists>c cs. tool_calls msg = Some (c # cs) \<and>
            execute_tool_calls js ag (c # cs) (st\<lparr>messages := messages st @ [Message msg]\<rparr>) w0
              = (Inr st1, w1))
         \<or> ((tool_calls msg = None \<or> tool_calls msg = Some []) \<and> w1 = w0 \<and>
             st1 = st\<lparr>messages := messages st @ [Message msg],
                       done_flag := (truthy (content msg) \<or> done_flag st)\<rparr>)"
      by (rule iteration_body_Inr)
    from "1.prems"(2)[OF g] alt obtain c cs where
      ex: "execute_tool_calls js ag (c # cs) (st\<lparr>messages := messages st @ [Message msg]\<rparr>) w0
              = (Inr st1, w1)"
      by auto
    from execute_tool_calls_Inr[OF ex] obtain ss where
      ss: "length ss = length (c # cs)"
        "messages st1 = (messages st @ [Message msg]) @ tool_messages (c # cs) ss"
      and d1: "done_flag st1 = done_flag st"
      by auto
    have l1: "\<exists>d. last (messages st1) = Dict d"
      unfolding ss(2) by (rule last_tool_messages[OF _ ss(1)]) simp
    have n1: "messages st1 \<noteq> []" using ss(2) by simp
    have "\<not> done_flag st' \<and> messages st' \<noteq> [] \<and> (\<exists>d. last (messages st') = Dict d) \<and>
         i' = max (i + 1) (max_iterations (options ag))"
      using "1.IH"[OF guard b[symmetric] r rest "1.prems"(2) _ n1 l1] d1 guard by simp
    with True show ?thesis by (simp add: max_def)
  qed
qed

text \<open>
  Hence, whatever the tools, the cap and the query: when the model requests a tool call
  in every message and the loop exits, \<open>run\<close> raises and returns no fallback message.
\<close>

lemma always_requesting_run:
  assumes "while_loop js ag 0 (initial_state (options ag) query) w = (Inr (iteration, st), w')"
    and "\<And>msgs w m w1. get_llm_response ag msgs w = (Inr m, w1) \<Longrightarrow>
           \<exists>c cs. tool_calls m = Some (c # cs)"
  shows "iteration = max 0 (max_iterations (options ag))"
    and "run js ag query hooks w = (Inl (AttributeError ''dict'' ''role''), w')"
proof -
  have init: "\<not> done_flag (initial_state (options ag) query)"
    "messages (initial_state (options ag) query) \<noteq> []"
    "\<exists>d. last (messages (initial_state (options ag) query)) = Dict d"
    by (simp_all add: initial_state_def initial_messages_def)
  from always_requesting_loop[OF assms(1) assms(2) init]
  have inv: "messages st \<noteq> []" "\<exists>d. last (messages st) = Dict d"
    and it: "iteration = max 0 (max_iterations (options ag))"
    by simp_all
  show "iteration = max 0 (max_iterations (options ag))" by (rule it)
  from inv obtain d where "last (messages st) = Dict d" by blast
  from finish_after_tool_turn[OF inv(1) this]
  show "run js ag query hooks w = (Inl (AttributeError ''dict'' ''role''), w')"
    using assms(1) by (simp add: run_def)
qed

text \<open>
  C1. The claim is that a run whose model requests a tool call in every message returns
  the fallback message after \<open>max_iterations\<close> iterations. The code does not: with the cap
  1 and a model that requests \<open>search_users\<close>, the loop executes the tool, exits after one
  iteration with the tool turn (a dict) as the last entry of the transcript, and
  \<open>last_message.role\<close> raises \<open>AttributeError\<close>.
\<close>

theorem run_stopped_on_tool_call_raises:
  "run example_json (example_agent 1 [requests [call ''call_1'' ''search_users'']])
     ''query'' no_hooks (0, [])
   = (Inl (AttributeError ''dict'' ''role''), (1, [''search_users'']))"
  by (simp add: example_defs run_defs)

subsection \<open>The hooks in the two terminal states\<close>

text \<open>The branch that returns the fallback message returns the hooks as it received them.\<close>

lemma fallback_keeps_hooks:
  assumes "finish ag iteration st hooks = Inr res"
    and "map_of (span_metrics res) ''max_iterations_reached'' = Some 1"
  shows "hooks_after res = hooks \<and> returned res = fallback_message (options ag)"
  using assms by (auto simp: finish_def split: sum.splits message.splits if_splits)

text \<open>
  C2. The claim is that \<open>run\<close> writes \<open>tools_used\<close> into the hooks in both terminal states.
  The code writes it in the answer branch only: with the cap 2, a first turn that requests
  \<open>search_users\<close> and a second turn with neither tool calls nor content, the loop has
  logged \<open>search_users\<close>, and \<open>run\<close> returns the fallback message with the hooks unchanged,
  without a \<open>tools_used\<close> entry.
\<close>

theorem fallback_leaves_hooks_unwritten:
  "(case fst (while_loop example_json
                (example_agent 2 [requests [call ''call_1'' ''search_users''], silent]) 0
                (initial_state (example_options 2) ''query'') (0, [])) of
      Inl e \<Rightarrow> False
    | Inr (iteration, st) \<Rightarrow> tools_used st = [''search_users'']) \<and>
   run example_json (example_agent 2 [requests [call ''call_1'' ''search_users''], silent])
     ''query'' no_hooks (0, [])
   = (Inr \<lparr>returned = ''Agent reached maximum iterations (2) without completing the task.'',
           hooks_after = no_hooks,
           span_output = ''Agent reached maximum iterations (2) without completing the task.'',
           span_metrics = [(''total_iterations'', 2), (''max_iterations_reached'', 1)]\<rparr>,
      (2, [''search_users''])) \<and>
   metadata no_hooks ''tools_used'' = None"
  by (simp add: example_defs run_defs)

subsection \<open>The dispatch of one tool call\<close>

text \<open>One pass of the \<open>for\<close> loop, for a call whose result \<open>json.dumps\<close> accepts.\<close>

lemma execute_tool_calls_step:
  assumes "execute_tool js ag tc w = (Inr r, w')" and "json_dumps js r = Inr s"
  shows "execute_tool_calls js ag (tc # rest) st w =
         execute_tool_calls js ag rest
           (st\<lparr>tools_used := tools_used st @ [function_name tc],
                messages := messages st @ [tool_message (tool_call_id tc) s]\<rparr>) w'"
  using assms by (simp add: Let_def)

text \<open>\<open>json.dumps\<close> accepts every failed result that the agent itself builds.\<close>

lemma json_dumps_failure:
  "json_dumps js \<lparr>success = False, message = m, data = None\<rparr> =
     Inr (''{\"success\": false, \"message\": '' @ encode_str js m @ '', \"data\": null}'')"
  by (simp add: json_dumps_def)

text \<open>An iteration whose model message requests one call, and the next test of the loop.\<close>

lemma while_loop_single_call:
  assumes "\<not> done_flag st" and "i < max_iterations (options ag)"
    and "get_llm_response ag (messages st) w = (Inr msg, w1)"
    and "tool_calls msg = Some [tc]"
    and "execute_tool js ag tc w1 = (Inr r, w2)" and "json_dumps js r = Inr s"
  shows "while_loop js ag i st w =
         while_loop js ag (i + 1)
           (st\<lparr>tools_used := tools_used st @ [function_name tc],
                messages := messages st @ [Message msg, tool_message (tool_call_id tc) s]\<rparr>) w2"
proof -
  have "iteration_body js ag st w =
          (Inr (st\<lparr>tools_used := tools_used st @ [function_name tc],
                messages := messages st @ [Message msg, tool_message (tool_call_id tc) s]\<rparr>), w2)"
    using assms(3-6) by (simp add: iteration_body_def Let_def)
  with assms(1,2) show ?thesis
    by (simp add: while_loop.simps[of js ag i st w])
qed

text \<open>
  C4. A call whose name is not a key of the registry: \<open>_execute_tool\<close> returns the result
  \<open>{success: False, message: "Unknown tool: <name>", data: None}\<close> and leaves the world as
  it is; the \<open>for\<close> loop logs the name, appends the tool turn with the serialized result
  and goes on with the remaining calls; and an iteration whose message requests only this
  call ends normally, so that the loop next tests its condition for the following
  iteration.
\<close>

theorem unknown_tool_is_reported:
  assumes "map_of (tools ag) (function_name tc) = None"
  shows "execute_tool js ag tc w =
           (Inr \<lparr>success = False, message = ''Unknown tool: '' @ function_name tc, data = None\<rparr>, w) \<and>
         execute_tool_calls js ag (tc # rest) st w =
           execute_tool_calls js ag rest
             (st\<lparr>tools_used := tools_used st @ [function_name tc],
                  messages := messages st @
                    [tool_message (tool_call_id tc)
                       (''{\"success\": false, \"message\": ''
                        @ encode_str js (''Unknown tool: '' @ function_name tc)
                        @ '', \"data\": null}'')]\<rparr>) w \<and>
         (\<forall>i st0 w0 msg.
            \<not> done_flag st0 \<and> i < max_iterations (options ag) \<and>
            get_llm_response ag (messages st0) w0 = (Inr msg, w) \<and> tool_calls msg = Some [tc] \<longrightarrow>
            while_loop js ag i st0 w0 =
              while_loop js ag (i + 1)
                (st0\<lparr>tools_used := tools_used st0 @ [function_name tc],
                     messages := messages st0 @
                       [Message msg,
                        tool_message (tool_call_id tc)
                          (''{\"success\": false, \"message\": ''
                           @ encode_str js (''Unknown tool: '' @ function_name tc)
                           @ '', \"data\": null}'')]\<rparr>) w)"
proof -
  have ex: "execute_tool js ag tc w =
           (Inr \<lparr>success = False, message = ''Unknown tool: '' @ function_name tc, data = None\<rparr>, w)"
    using assms by (simp add: execute_tool_def unknown_tool_def)
  note d = json_dumps_failure[of js "''Unknown tool: '' @ function_name tc"]
  show ?thesis
    using ex execute_tool_calls_step[OF ex d] while_loop_single_call[OF _ _ _ _ ex d]
    by blast
qed

text \<open>
  The witness: the model requests \<open>lookup_orders\<close>, which is not registered, and
  \<open>search_users\<close> in one message, then answers. The sibling call is executed (the world
  logs it), and the run returns the answer after two iterations.
\<close>

theorem unknown_tool_is_reported_witness:
  "map_of (tools (example_agent 2 [])) ''lookup_orders'' = None \<and>
   execute_tool example_json (example_agent 2 []) (call ''call_1'' ''lookup_orders'') (1, [])
     = (Inr \<lparr>success = False, message = ''Unknown tool: lookup_orders'', data = None\<rparr>, (1, [])) \<and>
   execute_tool_calls example_json (example_agent 2 [])
       [call ''call_1'' ''lookup_orders'', call ''call_2'' ''search_users'']
       \<lparr>messages = [], done_flag = False, tools_used = []\<rparr> (1, [])
     = (Inr \<lparr>messages =
               [tool_message ''call_1''
                  ''{\"success\": false, \"message\": \"Unknown tool: lookup_orders\", \"data\": null}'',
                tool_message ''call_2'' search_users_content],
             done_flag = False,
             tools_used = [''lookup_orders'', ''search_users'']\<rparr>,
        (1, [''search_users''])) \<and>
   run example_json
       (example_agent 2 [requests [call ''call_1'' ''lookup_orders''], says ''Done.''])
       ''query'' no_hooks (0, [])
     = (Inr \<lparr>returned = ''Done.'',
             hooks_after = \<lparr>metadata = [''tools_used'' \<mapsto> [''lookup_orders'']]\<rparr>,
             span_output = ''Done.'',
             span_metrics = [(''total_iterations'', 2)]\<rparr>, (2, []))"
proof -
  let ?tc = "call ''call_1'' ''lookup_orders''"
  let ?ag = "example_agent 2 [requests [?tc], says ''Done.'']"
  have h: "map_of (tools (example_agent 2 [])) (function_name ?tc) = None"
    by (simp add: example_defs)
  have h': "map_of (tools ?ag) (function_name ?tc) = None"
    by (simp add: example_defs)
  note a = unknown_tool_is_reported[OF h, of example_json "(1, [])"
      "[call ''call_2'' ''search_users'']" "\<lparr>messages = [], done_flag = False, tools_used = []\<rparr>"]
  note b = unknown_tool_is_reported[OF h', of example_json "(1, [])" "[]"
      "\<lparr>messages = [], done_flag = False, tools_used = []\<rparr>"]
  have g: "\<not> done_flag (initial_state (options ?ag) ''query'') \<and> 0 < max_iterations (options ?ag) \<and>
           get_llm_response ?ag (messages (initial_state (options ?ag) ''query'')) (0, [])
             = (Inr (requests [?tc]), (1, [])) \<and>
           tool_calls (requests [?tc]) = Some [?tc]"
    by (simp add: example_defs run_defs)
  from b g have step: "while_loop example_json ?ag 0 (initial_state (options ?ag) ''query'') (0, []) =
      while_loop example_json ?ag (0 + 1)
        ((initial_state (options ?ag) ''query'')
           \<lparr>tools_used := tools_used (initial_state (options ?ag) ''query'') @ [function_name ?tc],
            messages := messages (initial_state (options ?ag) ''query'') @
              [Message (requests [?tc]),
               tool_message (tool_call_id ?tc)
                 (''{\"success\": false, \"message\": ''
                  @ encode_str example_json (''Unknown tool: '' @ function_name ?tc)
                  @ '', \"data\": null}'')]\<rparr>) (1, [])"
    by blast
  have first: "map_of (tools (example_agent 2 [])) ''lookup_orders'' = None"
    using h by (simp add: call_def)
  have second: "execute_tool example_json (example_agent 2 []) ?tc (1, [])
     = (Inr \<lparr>success = False, message = ''Unknown tool: lookup_orders'', data = None\<rparr>, (1, []))"
    using a by (simp add: call_def)
  have third: "execute_tool_calls example_json (example_agent 2 [])
       [?tc, call ''call_2'' ''search_users'']
       \<lparr>messages = [], done_flag = False, tools_used = []\<rparr> (1, [])
     = (Inr \<lparr>messages =
               [tool_message ''call_1''
                  ''{\"success\": false, \"message\": \"Unknown tool: lookup_orders\", \"data\": null}'',
                tool_message ''call_2'' search_users_content],
             done_flag = False,
             tools_used = [''lookup_orders'', ''search_users'']\<rparr>,
        (1, [''search_users'']))"
    using a by (simp add: example_defs run_defs)
  have fourth: "run example_json ?ag ''query'' no_hooks (0, [])
     = (Inr \<lparr>returned = ''Done.'',
             hooks_after = \<lparr>metadata = [''tools_used'' \<mapsto> [''lookup_orders'']]\<rparr>,
             span_output = ''Done.'',
             span_metrics = [(''total_iterations'', 2)]\<rparr>, (2, []))"
    unfolding run_def step by (simp add: example_defs run_defs)
  from first second third fourth show ?thesis by blast
qed

text \<open>
  C3, as amended. A call to a registered tool whose arguments \<open>json.loads\<close> rejects, or
  whose \<open>execute\<close> raises, with an exception \<open>e\<close> that is an instance of \<open>Exception\<close>:
  \<open>_execute_tool\<close> returns the result
  \<open>{success: False, message: "Error executing <name>: <str(e)>", data: None}\<close>; the \<open>for\<close>
  loop logs the name, appends the tool turn with the serialized result and goes on with
  the remaining calls of the message, in the world that the failed call left; and an
  iteration whose message requests only this call ends normally, so that the loop next
  tests its condition for the following iteration.
\<close>

theorem tool_failure_is_isolated:
  assumes "map_of (tools ag) (function_name tc) = Some tool"
    and "is_Exception e"
    and "(json_loads js (function_arguments tc) = Inl e \<and> w' = w) \<or>
         (\<exists>arguments. json_loads js (function_arguments tc) = Inr arguments \<and>
            execute tool arguments w = (Inl e, w'))"
  shows "execute_tool js ag tc w =
           (Inr \<lparr>success = False,
                 message = ''Error executing '' @ function_name tc @ '': '' @ exc_str e,
                 data = None\<rparr>, w') \<and>
         execute_tool_calls js ag (tc # rest) st w =
           execute_tool_calls js ag rest
             (st\<lparr>tools_used := tools_used st @ [function_name tc],
                  messages := messages st @
                    [tool_message (tool_call_id tc)
                       (''{\"success\": false, \"message\": ''
                        @ encode_str js (''Error executing '' @ function_name tc @ '': '' @ exc_str e)
                        @ '', \"data\": null}'')]\<rparr>) w' \<and>
         (\<forall>i st0 w0 msg.
            \<not> done_flag st0 \<and> i < max_iterations (options ag) \<and>
            get_llm_response ag (messages st0) w0 = (Inr msg, w) \<and> tool_calls msg = Some [tc] \<longrightarrow>
            while_loop js ag i st0 w0 =
              while_loop js ag (i + 1)
                (st0\<lparr>tools_used := tools_used st0 @ [function_name tc],
                     messages := messages st0 @
                       [Message msg,
                        tool_message (tool_call_id tc)
                          (''{\"success\": false, \"message\": ''
                           @ encode_str js (''Error executing '' @ function_name tc @ '': '' @ exc_str e)
                           @ '', \"data\": null}'')]\<rparr>) w')"
proof -
  have ex: "execute_tool js ag tc w =
           (Inr \<lparr>success = False,
                 message = ''Error executing '' @ function_name tc @ '': '' @ exc_str e,
                 data = None\<rparr>, w')"
    using assms by (auto simp: execute_tool_def try_execute_def error_result_def)
  note d = json_dumps_failure[of js "''Error executing '' @ function_name tc @ '': '' @ exc_str e"]
  show ?thesis
    using ex execute_tool_calls_step[OF ex d] while_loop_single_call[OF _ _ _ _ ex d]
    by blast
qed

text \<open>
  The witness: \<open>notify_customer\<close> raises \<open>RuntimeError("service down")\<close>; requested
  together with \<open>search_users\<close>, both are executed, in the order of the request; requested
  alone, the run goes on to the answer of the second turn. A call of \<open>search_users\<close>
  with the malformed arguments \<open>{\<close> gives the result built from the decoding error.
\<close>

theorem tool_failure_is_isolated_witness:
  "map_of (tools (example_agent 2 [])) ''notify_customer'' = Some failing_tool \<and>
   execute failing_tool ''{}'' (1, [])
     = (Inl (Exception ''RuntimeError'' ''service down''), (1, [''notify_customer''])) \<and>
   execute_tool example_json (example_agent 2 []) (call ''call_1'' ''notify_customer'') (1, [])
     = (Inr \<lparr>success = False, message = ''Error executing notify_customer: service down'',
             data = None\<rparr>, (1, [''notify_customer''])) \<and>
   execute_tool_calls example_json (example_agent 2 [])
       [call ''call_1'' ''notify_customer'', call ''call_2'' ''search_users'']
       \<lparr>messages = [], done_flag = False, tools_used = []\<rparr> (1, [])
     = (Inr \<lparr>messages =
               [tool_message ''call_1''
                  ''{\"success\": false, \"message\": \"Error executing notify_customer: service down\", \"data\": null}'',
                tool_message ''call_2'' search_users_content],
             done_flag = False,
             tools_used = [''notify_customer'', ''search_users'']\<rparr>,
        (1, [''notify_customer'', ''search_users''])) \<and>
   run example_json
       (example_agent 2 [requests [call ''call_1'' ''notify_customer''], says ''Done.''])
       ''query'' no_hooks (0, [])
     = (Inr \<lparr>returned = ''Done.'',
             hooks_after = \<lparr>metadata = [''tools_used'' \<mapsto> [''notify_customer'']]\<rparr>,
             span_output = ''Done.'',
             span_metrics = [(''total_iterations'', 2)]\<rparr>, (2, [''notify_customer''])) \<and>
   execute_tool example_json (example_agent 2 [])
       \<lparr>tool_call_id = ''call_3'', function_name = ''search_users'', function_arguments = ''{''\<rparr>
       (1, [])
     = (Inr \<lparr>success = False,
             message = ''Error executing search_users: Expecting property name'',
             data = None\<rparr>, (1, []))"
proof -
  let ?tc = "call ''call_1'' ''notify_customer''"
  let ?bad = "\<lparr>tool_call_id = ''call_3'', function_name = ''search_users'',
               function_arguments = ''{''\<rparr>"
  let ?e = "Exception ''RuntimeError'' ''service down''"
  let ?ag = "example_agent 2 [requests [?tc], says ''Done.'']"
  let ?st = "\<lparr>messages = [], done_flag = False, tools_used = []\<rparr>"
  have h1: "map_of (tools (example_agent 2 [])) (function_name ?tc) = Some failing_tool"
    by (simp add: example_defs)
  have h1': "map_of (tools ?ag) (function_name ?tc) = Some failing_tool"
    by (simp add: example_defs)
  have ex: "execute failing_tool ''{}'' (1, []) = (Inl ?e, (1, [''notify_customer'']))"
    by (simp add: failing_tool_def)
  have h2: "(json_loads example_json (function_arguments ?tc) = Inl ?e \<and>
              (1, [''notify_customer'']) = (1, [])) \<or>
            (\<exists>arguments. json_loads example_json (function_arguments ?tc) = Inr arguments \<and>
               execute failing_tool arguments (1, []) = (Inl ?e, (1, [''notify_customer''])))"
    using ex by (simp add: example_json_def call_def)
  have e1: "is_Exception ?e" by simp
  have e2: "is_Exception (Exception ''JSONDecodeError'' ''Expecting property name'')" by simp
  have h3: "map_of (tools (example_agent 2 [])) (function_name ?bad) = Some search_users"
    by (simp add: example_defs)
  have h4: "(json_loads example_json (function_arguments ?bad)
               = Inl (Exception ''JSONDecodeError'' ''Expecting property name'') \<and>
             (1, []) = ((1, []) :: world)) \<or>
            (\<exists>arguments. json_loads example_json (function_arguments ?bad) = Inr arguments \<and>
               execute search_users arguments (1, [])
                 = (Inl (Exception ''JSONDecodeError'' ''Expecting property name''), (1, [])))"
    by (simp add: example_json_def)
  note a = tool_failure_is_isolated[OF h1 e1 h2, of "[call ''call_2'' ''search_users'']" ?st]
  note b = tool_failure_is_isolated[OF h1' e1 h2, of "[]" ?st]
  note c = tool_failure_is_isolated[OF h3 e2 h4, of "[]" ?st]
  have g: "\<not> done_flag (initial_state (options ?ag) ''query'') \<and> 0 < max_iterations (options ?ag) \<and>
           get_llm_response ?ag (messages (initial_state (options ?ag) ''query'')) (0, [])
             = (Inr (requests [?tc]), (1, [])) \<and>
           tool_calls (requests [?tc]) = Some [?tc]"
    by (simp add: example_defs run_defs)
  from b g have step: "while_loop example_json ?ag 0 (initial_state (options ?ag) ''query'') (0, []) =
      while_loop example_json ?ag (0 + 1)
        ((initial_state (options ?ag) ''query'')
           \<lparr>tools_used := tools_used (initial_state (options ?ag) ''query'') @ [function_name ?tc],
            messages := messages (initial_state (options ?ag) ''query'') @
              [Message (requests [?tc]),
               tool_message (tool_call_id ?tc)
                 (''{\"success\": false, \"message\": ''
                  @ encode_str example_json
                      (''Error executing '' @ function_name ?tc @ '': '' @ exc_str ?e)
                  @ '', \"data\": null}'')]\<rparr>) (1, [''notify_customer''])"
    by blast
  have first: "map_of (tools (example_agent 2 [])) ''notify_customer'' = Some failing_tool"
    using h1 by (simp add: call_def)
  have third: "execute_tool example_json (example_agent 2 []) ?tc (1, [])
     = (Inr \<lparr>success = False, message = ''Error executing notify_customer: service down'',
             data = None\<rparr>, (1, [''notify_customer'']))"
    using a by (simp add: call_def)
  have fourth: "execute_tool_calls example_json (example_agent 2 [])
       [?tc, call ''call_2'' ''search_users''] ?st (1, [])
     = (Inr \<lparr>messages =
               [tool_message ''call_1''
                  ''{\"success\": false, \"message\": \"Error executing notify_customer: service down\", \"data\": null}'',
                tool_message ''call_2'' search_users_content],
             done_flag = False,
             tools_used = [''notify_customer'', ''search_users'']\<rparr>,
        (1, [''notify_customer'', ''search_users'']))"
    using a by (simp add: example_defs run_defs)
  have fifth: "run example_json ?ag ''query'' no_hooks (0, [])
     = (Inr \<lparr>returned = ''Done.'',
             hooks_after = \<lparr>metadata = [''tools_used'' \<mapsto> [''notify_customer'']]\<rparr>,
             span_output = ''Done.'',
             span_metrics = [(''total_iterations'', 2)]\<rparr>, (2, [''notify_customer'']))"
    unfolding run_def step by (simp add: example_defs run_defs)
  have sixth: "execute_tool example_json (example_agent 2 []) ?bad (1, [])
     = (Inr \<lparr>success = False,
             message = ''Error executing search_users: Expecting property name'',
             data = None\<rparr>, (1, []))"
    using c by simp
  from first ex third fourth fifth sixth show ?thesis by blast
qed

text \<open>
  An exception that is not an instance of \<open>Exception\<close> is not caught: it leaves
  \<open>_execute_tool\<close> and the \<open>for\<close> loop, and the remaining calls are not dispatched.
\<close>

lemma uncaught_exception_propagates:
  assumes "map_of (tools ag) (function_name tc) = Some tool"
    and "\<not> is_Exception e"
    and "try_execute js tool tc w = (Inl e, w')"
  shows "execute_tool js ag tc w = (Inl e, w')"
    and "execute_tool_calls js ag (tc # rest) st w = (Inl e, w')"
proof -
  show ex: "execute_tool js ag tc w = (Inl e, w')"
    using assms by (simp add: execute_tool_def)
  then show "execute_tool_calls js ag (tc # rest) st w = (Inl e, w')"
    by simp
qed

text \<open>
  C3, as the claim states it, fails: the task of \<open>update_subscription\<close> is cancelled while
  the tool runs, and \<open>asyncio.CancelledError\<close> is not an \<open>Exception\<close>. The exception leaves
  \<open>_execute_tool\<close>; the sibling call \<open>search_users\<close> of the same message is never
  dispatched (the world logs \<open>update_subscription\<close> only); and \<open>run\<close> is left with the
  exception after one model call.
\<close>

theorem cancelled_tool_call_leaves_run:
  "execute_tool example_json (example_agent 2 []) (call ''call_1'' ''update_subscription'') (1, [])
     = (Inl (BaseExceptionOnly ''CancelledError'' []), (1, [''update_subscription''])) \<and>
   execute_tool_calls example_json (example_agent 2 [])
       [call ''call_1'' ''update_subscription'', call ''call_2'' ''search_users'']
       \<lparr>messages = [], done_flag = False, tools_used = []\<rparr> (1, [])
     = (Inl (BaseExceptionOnly ''CancelledError'' []), (1, [''update_subscription''])) \<and>
   run example_json
       (example_agent 2
          [requests [call ''call_1'' ''update_subscription'', call ''call_2'' ''search_users''],
           says ''Done.''])
       ''query'' no_hooks (0, [])
     = (Inl (BaseExceptionOnly ''CancelledError'' []), (1, [''update_subscription'']))"
  by (simp add: example_defs run_defs)

subsection \<open>Tool calls together with text\<close>

text \<open>
  C5. An iteration whose model message carries a non-empty list of tool calls and a truthy
  content takes the tool branch: the loop is the \<open>for\<close> loop over the calls followed, when
  that ends normally, by the test of the loop condition with the counter incremented;
  \<open>done\<close> is still unset there and the names of the calls are logged. So the next
  iteration runs whenever the cap allows one, and the text of this message is not
  returned.
\<close>

theorem tool_calls_take_priority:
  assumes "\<not> done_flag st" and "iteration < max_iterations (options ag)"
    and "get_llm_response ag (messages st) w = (Inr msg, w1)"
    and "tool_calls msg = Some (c # cs)"
    and "truthy (content msg)"
  shows "while_loop js ag iteration st w =
           (case execute_tool_calls js ag (c # cs) (st\<lparr>messages := messages st @ [Message msg]\<rparr>) w1 of
              (Inl e, w2) \<Rightarrow> (Inl e, w2)
            | (Inr st2, w2) \<Rightarrow> while_loop js ag (iteration + 1) st2 w2) \<and>
         (\<forall>st2 w2.
            execute_tool_calls js ag (c # cs) (st\<lparr>messages := messages st @ [Message msg]\<rparr>) w1
              = (Inr st2, w2) \<longrightarrow>
            \<not> done_flag st2 \<and> tools_used st2 = tools_used st @ map function_name (c # cs))"
proof -
  have body: "iteration_body js ag st w =
      execute_tool_calls js ag (c # cs) (st\<lparr>messages := messages st @ [Message msg]\<rparr>) w1"
    using assms(3,4) by (simp add: iteration_body_def Let_def del: execute_tool_calls.simps)
  have "while_loop js ag iteration st w =
           (case execute_tool_calls js ag (c # cs) (st\<lparr>messages := messages st @ [Message msg]\<rparr>) w1 of
              (Inl e, w2) \<Rightarrow> (Inl e, w2)
            | (Inr st2, w2) \<Rightarrow> while_loop js ag (iteration + 1) st2 w2)"
    using assms(1,2) body
    by (simp add: while_loop.simps[of js ag iteration st w] del: execute_tool_calls.simps)
  moreover have "\<not> done_flag st2 \<and> tools_used st2 = tools_used st @ map function_name (c # cs)"
    if "execute_tool_calls js ag (c # cs) (st\<lparr>messages := messages st @ [Message msg]\<rparr>) w1
              = (Inr st2, w2)" for st2 w2
    using execute_tool_calls_Inr[OF that] assms(1) by simp
  ultimately show ?thesis by blast
qed

text \<open>
  The witness: the first message says \<open>Let me check.\<close> and requests \<open>search_users\<close>. The
  tool is executed and the loop goes to its next test with the counter 1; with the cap 2
  the second iteration runs and its answer \<open>Done.\<close> is returned; with the cap 1 the loop
  exits there and the run does not return the text either.
\<close>

theorem tool_calls_take_priority_witness:
  "truthy (content thinking_aloud) \<and>
   while_loop example_json (example_agent 2 [thinking_aloud, says ''Done.'']) 0
       (initial_state (example_options 2) ''query'') (0, [])
     = while_loop example_json (example_agent 2 [thinking_aloud, says ''Done.'']) 1
         \<lparr>messages = [Dict [(''role'', ''user''), (''content'', ''query'')],
                      Message thinking_aloud,
                      tool_message ''call_1'' search_users_content],
          done_flag = False, tools_used = [''search_users'']\<rparr> (1, [''search_users'']) \<and>
   run example_json (example_agent 2 [thinking_aloud, says ''Done.'']) ''query'' no_hooks (0, [])
     = (Inr \<lparr>returned = ''Done.'',
             hooks_after = \<lparr>metadata = [''tools_used'' \<mapsto> [''search_users'']]\<rparr>,
             span_output = ''Done.'',
             span_metrics = [(''total_iterations'', 2)]\<rparr>, (2, [''search_users''])) \<and>
   run example_json (example_agent 1 [thinking_aloud]) ''query'' no_hooks (0, [])
     = (Inl (AttributeError ''dict'' ''role''), (1, [''search_users'']))"
proof -
  let ?ag = "example_agent 2 [thinking_aloud, says ''Done.'']"
  let ?st0 = "initial_state (example_options 2) ''query''"
  let ?c = "\<lparr>tool_call_id = ''call_1'', function_name = ''search_users'',
             function_arguments = ''{}''\<rparr>"
  let ?st2 = "\<lparr>messages = [Dict [(''role'', ''user''), (''content'', ''query'')],
                      Message thinking_aloud,
                      tool_message ''call_1'' search_users_content],
          done_flag = False, tools_used = [''search_users'']\<rparr>"
  have h1: "\<not> done_flag ?st0" by (simp add: initial_state_def)
  have h2: "0 < max_iterations (options ?ag)" by (simp add: example_defs)
  have h3: "get_llm_response ?ag (messages ?st0) (0, []) = (Inr thinking_aloud, (1, []))"
    by (simp add: example_defs run_defs)
  have h4: "tool_calls thinking_aloud = Some (?c # [])" by (simp add: thinking_aloud_def)
  have h5: "truthy (content thinking_aloud)" by (simp add: thinking_aloud_def)
  have calls: "execute_tool_calls example_json ?ag (?c # [])
                 (?st0\<lparr>messages := messages ?st0 @ [Message thinking_aloud]\<rparr>) (1, [])
               = (Inr ?st2, (1, [''search_users'']))"
    by (simp add: example_defs run_defs)
  from tool_calls_take_priority[OF h1 h2 h3 h4 h5, of example_json]
  have step: "while_loop example_json ?ag 0 ?st0 (0, [])
                = while_loop example_json ?ag 1 ?st2 (1, [''search_users''])"
    unfolding calls by simp
  have ran: "run example_json ?ag ''query'' no_hooks (0, [])
     = (Inr \<lparr>returned = ''Done.'',
             hooks_after = \<lparr>metadata = [''tools_used'' \<mapsto> [''search_users'']]\<rparr>,
             span_output = ''Done.'',
             span_metrics = [(''total_iterations'', 2)]\<rparr>, (2, [''search_users'']))"
    by (simp add: example_defs run_defs)
  have capped: "run example_json (example_agent 1 [thinking_aloud]) ''query'' no_hooks (0, [])
     = (Inl (AttributeError ''dict'' ''role''), (1, [''search_users'']))"
    by (simp add: example_defs run_defs)
  from h5 step ran capped show ?thesis by blast
qed

subsection \<open>The registry\<close>

lemma map_of_fold_update:
  "map_of (fold (\<lambda>tool d. AList.update (name tool) tool d) ts d0) n =
     (if filter (\<lambda>t. name t = n) ts = [] then map_of d0 n
      else Some (last (filter (\<lambda>t. name t = n) ts)))"
proof (induction ts arbitrary: d0)
  case Nil
  show ?case by simp
next
  case (Cons t ts)
  show ?case
    by (simp add: Cons.IH AList.update_conv')
qed

text \<open>The keys of the registry are distinct, and each tool is stored under its name.\<close>

lemma registry_keys:
  "distinct (map fst d0) \<Longrightarrow> \<forall>(k, t) \<in> set d0. name t = k \<Longrightarrow>
   distinct (map fst (fold (\<lambda>tool d. AList.update (name tool) tool d) ts d0)) \<and>
   (\<forall>(k, t) \<in> set (fold (\<lambda>tool d. AList.update (name tool) tool d) ts d0). name t = k)"
proof (induction ts arbitrary: d0)
  case Nil
  then show ?case by simp
next
  case (Cons t ts)
  have "distinct (map fst (AList.update (name t) t d0))"
    using Cons.prems(1) by (rule AList.distinct_update)
  moreover have "\<forall>(k, t') \<in> set (AList.update (name t) t d0). name t' = k"
    using Cons.prems(2) by (induction d0) (auto split: if_splits)
  ultimately show ?case using Cons.IH by simp
qed

lemma filter_distinct_key:
  "distinct (map fst al) \<Longrightarrow> map_of al n = Some t \<Longrightarrow> filter (\<lambda>p. fst p = n) al = [(n, t)]"
proof (induction al)
  case Nil
  then show ?case by simp
next
  case (Cons p al)
  show ?case
  proof (cases "fst p = n")
    case True
    with Cons.prems have "p = (n, t)" by (cases p) simp
    moreover have "n \<notin> fst ` set al"
      using Cons.prems(1) True by auto
    then have "filter (\<lambda>p. fst p = n) al = []"
      by (auto simp: filter_empty_conv image_iff)
    ultimately show ?thesis by simp
  next
    case False
    with Cons show ?thesis by simp
  qed
qed

lemma filter_schemas:
  "\<forall>(k, t) \<in> set al. name t = k \<Longrightarrow>
   filter (\<lambda>s. schema_name s = n) (map (\<lambda>(k, tool). to_function_schema tool) al)
     = map (\<lambda>(k, tool). to_function_schema tool) (filter (\<lambda>p. fst p = n) al)"
  by (induction al) (auto simp: to_function_schema_def)

text \<open>
  C9. When the construction list holds two tools of the name \<open>n\<close>, the second being the
  last of that name, \<open>__init__\<close> builds the registry without an error (it is a total
  function), the name \<open>n\<close> maps to the second tool, the schemas sent to the model hold
  exactly one entry of that name, the schema of the second tool, and a call of \<open>n\<close> is
  dispatched to the \<open>execute\<close> of the second tool.
\<close>

theorem duplicate_name_keeps_last_tool:
  assumes "ts = xs @ t1 # ys @ t2 # zs"
    and "name t1 = n" and "name t2 = n"
    and "\<forall>t \<in> set zs. name t \<noteq> n"
  shows "map_of (tools (init ts opts cl)) n = Some t2 \<and>
         filter (\<lambda>s. schema_name s = n) (function_schemas (init ts opts cl))
           = [to_function_schema t2] \<and>
         (\<forall>js tc w arguments.
            function_name tc = n \<and> json_loads js (function_arguments tc) = Inr arguments \<longrightarrow>
            execute_tool js (init ts opts cl) tc w =
              (case execute t2 arguments w of
                 (Inr result, w') \<Rightarrow> (Inr result, w')
               | (Inl e, w') \<Rightarrow>
                   if is_Exception e then (Inr (error_result n e), w') else (Inl e, w')))"
proof -
  have nil: "filter (\<lambda>t. name t = n) zs = []"
    using assms(4) by (auto simp: filter_empty_conv)
  have fl: "filter (\<lambda>t. name t = n) ts = filter (\<lambda>t. name t = n) (xs @ t1 # ys) @ [t2]"
    by (simp add: assms(1-3) nil)
  have look: "map_of (registry ts) n = Some t2"
    unfolding registry_def map_of_fold_update fl by simp
  have keys: "distinct (map fst (registry ts))" "\<forall>(k, t) \<in> set (registry ts). name t = k"
    unfolding registry_def using registry_keys[of "[]" ts] by simp_all
  have "filter (\<lambda>s. schema_name s = n) (map (\<lambda>(k, tool). to_function_schema tool) (registry ts))
        = map (\<lambda>(k, tool). to_function_schema tool) (filter (\<lambda>p. fst p = n) (registry ts))"
    using keys(2) by (rule filter_schemas)
  also have "\<dots> = [to_function_schema t2]"
    by (simp add: filter_distinct_key[OF keys(1) look])
  finally have schemas:
    "filter (\<lambda>s. schema_name s = n) (function_schemas (init ts opts cl)) = [to_function_schema t2]"
    by (simp add: init_def function_schemas_def)
  have dispatch: "execute_tool js (init ts opts cl) tc w =
              (case execute t2 arguments w of
                 (Inr result, w') \<Rightarrow> (Inr result, w')
               | (Inl e, w') \<Rightarrow>
                   if is_Exception e then (Inr (error_result n e), w') else (Inl e, w'))"
    if "function_name tc = n" "json_loads js (function_arguments tc) = Inr arguments"
    for js :: "('a, 'c) json_module" and tc w arguments
    using that look by (simp add: execute_tool_def try_execute_def init_def)
  show ?thesis using look schemas dispatch by (simp add: init_def)
qed

theorem duplicate_name_keeps_last_tool_witness:
  "map_of (tools (init [search_users, failing_tool, other_search] (example_options 1) (scripted [])))
     ''search_users'' = Some other_search \<and>
   filter (\<lambda>s. schema_name s = ''search_users'')
     (function_schemas (init [search_users, failing_tool, other_search] (example_options 1) (scripted [])))
     = [to_function_schema other_search] \<and>
   map schema_name
     (function_schemas (init [search_users, failing_tool, other_search] (example_options 1) (scripted [])))
     = [''search_users'', ''notify_customer''] \<and>
   execute_tool example_json
     (init [search_users, failing_tool, other_search] (example_options 1) (scripted []))
     (call ''call_1'' ''search_users'') (0, [])
     = (Inr \<lparr>success = True, message = ''Found 0 user(s) matching criteria'', data = None\<rparr>,
        (0, [''other_search'']))"
proof -
  let ?ts = "[search_users, failing_tool, other_search]"
  let ?ag = "init ?ts (example_options 1) (scripted [])"
  have h1: "?ts = [] @ search_users # [failing_tool] @ other_search # []" by simp
  have h2: "name search_users = ''search_users''" by (simp add: search_users_def)
  have h3: "name other_search = ''search_users''" by (simp add: other_search_def)
  have h4: "\<forall>t \<in> set []. name (t :: (string, unit, string, world) Tool) \<noteq> ''search_users''"
    by simp
  note t = duplicate_name_keeps_last_tool[OF h1 h2 h3 h4, of "example_options 1" "scripted []"]
  have names: "map schema_name (function_schemas ?ag) = [''search_users'', ''notify_customer'']"
    by (simp add: example_defs run_defs)
  have "function_name (call ''call_1'' ''search_users'') = ''search_users'' \<and>
        json_loads example_json (function_arguments (call ''call_1'' ''search_users'')) = Inr ''{}''"
    by (simp add: call_def example_json_def)
  with t have "execute_tool example_json ?ag (call ''call_1'' ''search_users'') (0, []) =
      (case execute other_search ''{}'' (0, []) of
         (Inr result, w') \<Rightarrow> (Inr result, w')
       | (Inl e, w') \<Rightarrow>
           if is_Exception e then (Inr (error_result ''search_users'' e), w') else (Inl e, w'))"
    by blast
  then have disp: "execute_tool example_json ?ag (call ''call_1'' ''search_users'') (0, [])
     = (Inr \<lparr>success = True, message = ''Found 0 user(s) matching criteria'', data = None\<rparr>,
        (0, [''other_search'']))"
    by (simp add: other_search_def)
  from t names disp show ?thesis by blast
qed

subsection \<open>The log of the tools used\<close>

text \<open>
  C10. Whatever the registry holds and whatever the tools do, a \<open>for\<close> loop that ends has
  appended to \<open>tools_used\<close> the names of its calls, in the order of the request; and when
  the loop of a run exits, \<open>tools_used\<close> is the list of the names of all the tool calls
  that the model messages of the transcript request, in the order of the transcript.
\<close>

theorem tools_used_logs_requested_names:
  assumes "while_loop js ag 0 (initial_state (options ag) query) w = (Inr (iteration, st), w')"
  shows "tools_used st = requested_names (messages st) \<and>
         (\<forall>cs st0 w0 st1 w1.
            execute_tool_calls js ag cs st0 w0 = (Inr st1, w1) \<longrightarrow>
            tools_used st1 = tools_used st0 @ map function_name cs)"
proof -
  from while_loop_invariant[OF assms]
  have "tools_used st = requested_names (messages st)"
    by (simp add: initial_state_facts)
  moreover have "tools_used st1 = tools_used st0 @ map function_name cs"
    if "execute_tool_calls js ag cs st0 w0 = (Inr st1, w1)" for cs st0 w0 st1 w1
    using execute_tool_calls_Inr[OF that] by simp
  ultimately show ?thesis by blast
qed

text \<open>
  The witness: one message requests \<open>notify_customer\<close>, whose execution fails,
  \<open>lookup_orders\<close>, which is not registered, and \<open>search_users\<close>; the log holds the three
  names, while the world shows that two tools were executed.
\<close>

theorem tools_used_logs_requested_names_witness:
  "\<exists>st. while_loop example_json
           (example_agent 2
              [requests [call ''call_1'' ''notify_customer'', call ''call_2'' ''lookup_orders'',
                         call ''call_3'' ''search_users''],
               says ''Done.'']) 0
           (initial_state
              (options (example_agent 2
                 [requests [call ''call_1'' ''notify_customer'', call ''call_2'' ''lookup_orders'',
                            call ''call_3'' ''search_users''],
                  says ''Done.''])) ''query'') (0, [])
         = (Inr (2, st), (2, [''notify_customer'', ''search_users''])) \<and>
        tools_used st = [''notify_customer'', ''lookup_orders'', ''search_users''] \<and>
        tools_used st = requested_names (messages st)"
proof -
  let ?ag = "example_agent 2
              [requests [call ''call_1'' ''notify_customer'', call ''call_2'' ''lookup_orders'',
                         call ''call_3'' ''search_users''],
               says ''Done.'']"
  have "\<exists>st. while_loop example_json ?ag 0 (initial_state (options ?ag) ''query'') (0, [])
               = (Inr (2, st), (2, [''notify_customer'', ''search_users''])) \<and>
             tools_used st = [''notify_customer'', ''lookup_orders'', ''search_users'']"
    by (simp add: example_defs run_defs)
  then obtain st where
    loop: "while_loop example_json ?ag 0 (initial_state (options ?ag) ''query'') (0, [])
               = (Inr (2, st), (2, [''notify_customer'', ''search_users'']))"
    and used: "tools_used st = [''notify_customer'', ''lookup_orders'', ''search_users'']"
    by blast
  from tools_used_logs_requested_names[OF loop] loop used show ?thesis by blast
qed

subsection \<open>The round trip of a tool result\<close>

text \<open>
  The decoder inverts the encoder, piece by piece: the escapes of a string, the digits
  of an integer, the elements of a list and the members of a dict, and then every
  value, by induction on the value.
\<close>

lemma hex_val_hex_digit: "k < 16 \<Longrightarrow> hex_val (hex_digit k) = Some k"
proof -
  have "\<forall>k \<in> set [0..<16]. hex_val (hex_digit k) = Some k"
    by code_simp
  then show "k < 16 \<Longrightarrow> hex_val (hex_digit k) = Some k" by simp
qed

lemma hex_val_zero: "hex_val (CHR ''0'') = Some 0"
  by (simp add: hex_val_def)

lemma parse_chars_escape:
  "parse_chars (escape_char c @ rest) = map_option (apfst ((#) c)) (parse_chars rest)"
proof -
  let ?n = "of_char c :: nat"
  have lt: "?n < 256" by simp
  have d: "?n div 16 < 16" "?n mod 16 < 16" using lt by (presburger+)
  have same: "char_of (?n div 16 * 16 + ?n mod 16) = c"
    by simp
  consider (short) "c = CHR 0x22 \<or> c = CHR 0x5C \<or> c = CHR 0x0A \<or> c = CHR 0x0D \<or> c = CHR 0x09
        \<or> c = CHR 0x08 \<or> c = CHR 0x0C"
    | (plain) "c \<noteq> CHR 0x22" "c \<noteq> CHR 0x5C" "c \<noteq> CHR 0x0A" "c \<noteq> CHR 0x0D" "c \<noteq> CHR 0x09"
        "c \<noteq> CHR 0x08" "c \<noteq> CHR 0x0C" "0x20 \<le> ?n \<and> ?n \<le> 0x7E"
    | (hex) "c \<noteq> CHR 0x22" "c \<noteq> CHR 0x5C" "c \<noteq> CHR 0x0A" "c \<noteq> CHR 0x0D" "c \<noteq> CHR 0x09"
        "c \<noteq> CHR 0x08" "c \<noteq> CHR 0x0C" "\<not> (0x20 \<le> ?n \<and> ?n \<le> 0x7E)"
    by blast
  then show ?thesis
  proof cases
    case short
    then show ?thesis
      by (auto simp: escape_char_def unescape_def)
  next
    case plain
    then show ?thesis
      by (simp add: escape_char_def)
  next
    case hex
    then show ?thesis
      using d same
      by (simp add: escape_char_def hex_val_zero hex_val_hex_digit)
  qed
qed

lemma parse_chars_encoded:
  "parse_chars (concat (map escape_char s) @ CHR 0x22 # rest) = Some (s, rest)"
  by (induction s) (simp_all add: parse_chars_escape)

lemma digit_chars:
  "k < 10 \<Longrightarrow> is_digit (''0123456789'' ! k) \<and> digit_val (''0123456789'' ! k) = k \<and>
     (0 < k \<longrightarrow> ''0123456789'' ! k \<noteq> CHR ''0'')"
proof -
  have "\<forall>k \<in> set [0..<10]. is_digit (''0123456789'' ! k) \<and> digit_val (''0123456789'' ! k) = k \<and>
     (0 < k \<longrightarrow> ''0123456789'' ! k \<noteq> CHR ''0'')"
    by code_simp
  then show "k < 10 \<Longrightarrow> is_digit (''0123456789'' ! k) \<and> digit_val (''0123456789'' ! k) = k \<and>
     (0 < k \<longrightarrow> ''0123456789'' ! k \<noteq> CHR ''0'')" by simp
qed

lemma str_nat_digits: "str_nat n \<noteq> [] \<and> (\<forall>c \<in> set (str_nat n). is_digit c)"
proof (induction n rule: str_nat.induct)
  case (1 n)
  show ?case
  proof (cases "n < 10")
    case True
    then show ?thesis using digit_chars[of n] by (simp add: str_nat.simps[of n] del: str_nat.simps)
  next
    case False
    have "n mod 10 < 10" by simp
    from digit_chars[OF this] "1.IH"[OF False] False show ?thesis
      by (simp add: str_nat.simps[of n] del: str_nat.simps)
  qed
qed

lemma nat_of_digits_snoc: "nat_of_digits (ds @ [c]) = 10 * nat_of_digits ds + digit_val c"
  by (simp add: nat_of_digits_def)

lemma nat_of_digits_str_nat: "nat_of_digits (str_nat n) = n"
proof (induction n rule: str_nat.induct)
  case (1 n)
  show ?case
  proof (cases "n < 10")
    case True
    then show ?thesis using digit_chars[of n]
      by (simp add: str_nat.simps[of n] nat_of_digits_def del: str_nat.simps)
  next
    case False
    have "n mod 10 < 10" by simp
    from digit_chars[OF this] "1.IH"[OF False] False show ?thesis
      by (simp add: str_nat.simps[of n] nat_of_digits_snoc del: str_nat.simps)
  qed
qed

lemma str_nat_no_leading_zero: "0 < n \<Longrightarrow> hd (str_nat n) \<noteq> CHR ''0''"
proof (induction n rule: str_nat.induct)
  case (1 n)
  show ?case
  proof (cases "n < 10")
    case True
    then show ?thesis using digit_chars[of n] "1.prems" by (simp add: str_nat.simps[of n] del: str_nat.simps)
  next
    case False
    then have "0 < n div 10" by simp
    from "1.IH"[OF False this] str_nat_digits[of "n div 10"] False show ?thesis
      by (simp add: str_nat.simps[of n] del: str_nat.simps)
  qed
qed

lemma str_nat_zero: "str_nat 0 = ''0''"
  by (simp add: str_nat.simps[of 0] del: str_nat.simps)

lemma delim_not_digit: "delim rest \<Longrightarrow> takeWhile is_digit rest = [] \<and> dropWhile is_digit rest = rest"
  by (cases rest) (auto simp: is_digit_def)

lemma parse_digits_str_nat:
  assumes "delim rest"
  shows "parse_digits negative (str_nat n @ rest)
         = Some (if negative then - int n else int n, rest)"
proof -
  from str_nat_digits[of n] obtain d ds where ds: "str_nat n = d # ds"
    and all: "\<forall>c \<in> set (str_nat n). is_digit c"
    by (cases "str_nat n") (auto simp del: str_nat.simps)
  have tw: "takeWhile is_digit (str_nat n @ rest) = str_nat n"
    using all delim_not_digit[OF assms] by (simp add: takeWhile_append2 del: str_nat.simps)
  have dw: "dropWhile is_digit (str_nat n @ rest) = rest"
    using all delim_not_digit[OF assms] by (simp add: dropWhile_append2 del: str_nat.simps)
  have lead: "\<not> (d = CHR ''0'' \<and> ds \<noteq> [])"
  proof (cases "n = 0")
    case True
    with ds str_nat_zero show ?thesis by (simp del: str_nat.simps)
  next
    case False
    with str_nat_no_leading_zero[of n] ds show ?thesis by (simp del: str_nat.simps)
  qed
  have val: "nat_of_digits (d # ds) = n"
    using nat_of_digits_str_nat[of n] ds by (simp del: str_nat.simps)
  show ?thesis
    unfolding parse_digits_def tw dw Let_def
    using lead val assms by (cases rest) (auto simp: ds simp del: str_nat.simps)
qed

lemma str_int_first:
  "\<exists>c cs. str_int i = c # cs \<and> (c = CHR ''-'' \<or> is_digit c)"
proof (cases "i < 0")
  case True
  then show ?thesis by (simp add: str_int_def del: str_nat.simps)
next
  case False
  from str_nat_digits[of "nat i"] obtain d ds where "str_nat (nat i) = d # ds" "is_digit d"
    by (cases "str_nat (nat i)") (auto simp del: str_nat.simps)
  with False show ?thesis by (simp add: str_int_def del: str_nat.simps)
qed

lemma parse_number_str_int:
  assumes "delim rest"
  shows "parse_number (str_int i @ rest) = Some (i, rest)"
proof (cases "i < 0")
  case True
  then show ?thesis
    using parse_digits_str_nat[OF assms, of True "nat (- i)"]
    by (simp add: parse_number_def str_int_def del: str_nat.simps)
next
  case False
  from str_nat_digits[of "nat i"] obtain d ds where ds: "str_nat (nat i) = d # ds" "is_digit d"
    by (cases "str_nat (nat i)") (auto simp del: str_nat.simps)
  then have "d \<noteq> CHR ''-''" by (auto simp: is_digit_def)
  with False ds show ?thesis
    using parse_digits_str_nat[OF assms, of False "nat i"]
    by (simp add: parse_number_def str_int_def del: str_nat.simps)
qed

lemma skip_ws_opens: "opens_value c \<Longrightarrow> skip_ws (c # cs) = c # cs"
  by (simp add: skip_ws_def opens_value_def)

lemma skip_ws_space: "skip_ws (CHR '' '' # cs) = skip_ws cs"
  by (simp add: skip_ws_def is_ws_def)

lemma skip_ws_punct:
  "skip_ws (CHR '','' # cs) = CHR '','' # cs"
  "skip_ws (CHR '']'' # cs) = CHR '']'' # cs"
  "skip_ws (CHR ''}'' # cs) = CHR ''}'' # cs"
  "skip_ws (CHR '':'' # cs) = CHR '':'' # cs"
  "skip_ws [] = []"
  by (simp_all add: skip_ws_def is_ws_def)

lemma is_digit_opens: "is_digit c \<Longrightarrow> opens_value c"
  by (auto simp: is_digit_def opens_value_def is_ws_def)

lemma render_first:
  "serializable v \<Longrightarrow> \<exists>c cs. render v = c # cs \<and> opens_value c"
proof (cases v)
  case (PInt i)
  from str_int_first[of i] obtain c cs where "str_int i = c # cs" "c = CHR ''-'' \<or> is_digit c"
    by blast
  then have "opens_value c"
    using is_digit_opens by (auto simp: opens_value_def is_ws_def)
  with \<open>str_int i = c # cs\<close> PInt show ?thesis by simp
qed (auto simp: opens_value_def is_ws_def py_encode_str_def)

lemma parse_elements_rendered:
  assumes IH: "\<And>x n rest. x \<in> set xs \<Longrightarrow> serializable x \<Longrightarrow> delim rest \<Longrightarrow> fuel_needed x \<le> n \<Longrightarrow>
                 parse_value n (render x @ rest) = Some (reloaded x, rest)"
  shows "xs \<noteq> [] \<Longrightarrow> list_all serializable xs \<Longrightarrow>
         sum_list (map (\<lambda>x. 1 + fuel_needed x) xs) \<le> n \<Longrightarrow>
         parse_elements n (join_items (map render xs) @ CHR '']'' # rest) = Some (map reloaded xs, rest)"
  using IH
proof (induction xs arbitrary: n)
  case Nil
  then show ?case by simp
next
  case (Cons x xs)
  from Cons.prems(3) obtain m where n: "n = Suc m"
    and m: "fuel_needed x + sum_list (map (\<lambda>x. 1 + fuel_needed x) xs) \<le> m"
    by (cases n) auto
  have sx: "serializable x" using Cons.prems(2) by simp
  show ?case
  proof (cases xs)
    case Nil
    have "parse_value m (render x @ CHR '']'' # rest) = Some (reloaded x, CHR '']'' # rest)"
      using Cons.prems(4)[of x "CHR '']'' # rest" m] sx m by simp
    then show ?thesis
      by (simp add: n Nil skip_ws_punct)
  next
    case (Cons y ys)
    let ?tail = "join_items (map render (y # ys)) @ CHR '']'' # rest"
    have first: "parse_value m (render x @ CHR '','' # CHR '' '' # ?tail)
                 = Some (reloaded x, CHR '','' # CHR '' '' # ?tail)"
      using Cons.prems(4)[of x "CHR '','' # CHR '' '' # ?tail" m] sx m by simp
    have sy: "serializable y" using Cons.prems(2) Cons by simp
    from render_first[OF sy] obtain c cs where cy: "render y = c # cs" "opens_value c"
      by blast
    have "?tail = c # (cs @ (case ys of [] \<Rightarrow> [] | _ \<Rightarrow> '', '' @ join_items (map render ys)) @ CHR '']'' # rest)"
      using cy by (cases ys) simp_all
    then have sk: "skip_ws (CHR '' '' # ?tail) = ?tail"
      using skip_ws_opens[OF cy(2)] by (simp add: skip_ws_space)
    have rest_ok: "parse_elements m ?tail = Some (map reloaded (y # ys), rest)"
      using Cons.IH[of m] Cons.prems(2,4) m Cons by simp
    show ?thesis
      using first sk rest_ok
      by (simp add: n Cons skip_ws_punct del: join_items.simps map_eq_Cons_conv)
         (simp add: first sk rest_ok skip_ws_punct)
  qed
qed

lemma render_dict: "render (PDict kvs) = ''{'' @ join_items (map render_member kvs) @ ''}''"
  by (simp add: render_member_def[abs_def])

lemma parse_member_key:
  "parse_members (Suc m) (render_member (k, v) @ tail) =
     (case parse_value m (render v @ tail) of
        None \<Rightarrow> None
      | Some (v', r2) \<Rightarrow>
          (case skip_ws r2 of
             [] \<Rightarrow> None
           | d # ds \<Rightarrow>
               if d = CHR ''}'' then Some ([(k, v')], ds)
               else if d = CHR '','' then
                 map_option (apfst ((#) (k, v'))) (parse_members m (skip_ws ds))
               else None))"
  if "serializable v"
proof -
  from render_first[OF that] obtain c cs where cv: "render v = c # cs" "opens_value c"
    by blast
  have sk: "skip_ws (CHR '' '' # render v @ tail) = render v @ tail"
    using skip_ws_opens[OF cv(2)] cv(1) by (simp add: skip_ws_space)
  have shape: "render_member (k, v) @ tail =
      CHR 0x22 # (concat (map escape_char k) @ CHR 0x22 # (CHR '':'' # CHR '' '' # render v @ tail))"
    by (simp add: render_member_def py_encode_str_def)
  show ?thesis
    unfolding shape
    by (simp add: parse_chars_encoded skip_ws_punct sk del: parse_chars.simps)
qed

lemma parse_members_rendered:
  assumes IH: "\<And>kv n rest. kv \<in> set kvs \<Longrightarrow> serializable (snd kv) \<Longrightarrow> delim rest \<Longrightarrow>
                 fuel_needed (snd kv) \<le> n \<Longrightarrow>
                 parse_value n (render (snd kv) @ rest) = Some (reloaded (snd kv), rest)"
  shows "kvs \<noteq> [] \<Longrightarrow> list_all (\<lambda>kv. serializable (snd kv)) kvs \<Longrightarrow>
         sum_list (map (\<lambda>kv. 1 + fuel_needed (snd kv)) kvs) \<le> n \<Longrightarrow>
         parse_members n (join_items (map render_member kvs) @ CHR ''}'' # rest)
           = Some (map (\<lambda>kv. (fst kv, reloaded (snd kv))) kvs, rest)"
  using IH
proof (induction kvs arbitrary: n)
  case Nil
  then show ?case by simp
next
  case (Cons kv kvs)
  obtain k v where kv: "kv = (k, v)" by (cases kv)
  from Cons.prems(3) obtain m where n: "n = Suc m"
    and m: "fuel_needed v + sum_list (map (\<lambda>kv. 1 + fuel_needed (snd kv)) kvs) \<le> m"
    by (cases n) (auto simp: kv)
  have sv: "serializable v" using Cons.prems(2) by (simp add: kv)
  show ?case
  proof (cases kvs)
    case Nil
    have "parse_value m (render v @ CHR ''}'' # rest) = Some (reloaded v, CHR ''}'' # rest)"
      using Cons.prems(4)[of kv "CHR ''}'' # rest" m] sv m by (simp add: kv)
    then show ?thesis
      using parse_member_key[OF sv, of m k "CHR ''}'' # rest"]
      by (simp add: n Nil kv skip_ws_punct del: parse_members.simps)
  next
    case (Cons kv' kvs')
    define tail where "tail = join_items (map render_member (kv' # kvs')) @ CHR ''}'' # rest"
    have first: "parse_value m (render v @ CHR '','' # CHR '' '' # tail)
                 = Some (reloaded v, CHR '','' # CHR '' '' # tail)"
      using Cons.prems(4)[of kv "CHR '','' # CHR '' '' # tail" m] sv m by (simp add: kv)
    have "\<exists>cs. tail = CHR 0x22 # cs"
      unfolding tail_def by (cases kvs') (simp_all add: render_member_def py_encode_str_def)
    then obtain cs where t: "tail = CHR 0x22 # cs" by blast
    have "opens_value (CHR 0x22)" by (simp add: opens_value_def is_ws_def)
    then have sk: "skip_ws (CHR '' '' # tail) = tail"
      unfolding t by (simp add: skip_ws_space skip_ws_opens)
    have rest_ok: "parse_members m tail
        = Some (map (\<lambda>kv. (fst kv, reloaded (snd kv))) (kv' # kvs'), rest)"
      unfolding tail_def using Cons.IH[of m] Cons.prems(2,4) m Cons by simp
    have shape: "join_items (map render_member (kv # kvs)) @ CHR ''}'' # rest
        = render_member (k, v) @ CHR '','' # CHR '' '' # tail"
      by (simp add: Cons kv tail_def)
    show ?thesis
      unfolding shape n parse_member_key[OF sv]
      by (simp add: first sk rest_ok skip_ws_punct Cons kv)
  qed
qed

lemma parse_list_rendered:
  assumes IH: "\<And>x n rest. x \<in> set xs \<Longrightarrow> serializable x \<Longrightarrow> delim rest \<Longrightarrow> fuel_needed x \<le> n \<Longrightarrow>
                 parse_value n (render x @ rest) = Some (reloaded x, rest)"
    and ser: "list_all serializable xs"
    and fuel: "1 + sum_list (map (\<lambda>x. 1 + fuel_needed x) xs) \<le> n"
  shows "parse_value n (CHR ''['' # join_items (map render xs) @ CHR '']'' # rest)
         = Some (PList (map reloaded xs), rest)"
proof -
  from fuel obtain m where n: "n = Suc m" and m: "sum_list (map (\<lambda>x. 1 + fuel_needed x) xs) \<le> m"
    by (cases n) auto
  show ?thesis
  proof (cases xs)
    case Nil
    then show ?thesis by (simp add: n skip_ws_punct)
  next
    case (Cons x xs')
    define body where "body = join_items (map render xs) @ CHR '']'' # rest"
    from ser Cons have "serializable x" by simp
    from render_first[OF this] obtain c cs where cx: "render x = c # cs" "opens_value c"
      by blast
    have "\<exists>ds. body = c # ds"
      unfolding body_def Cons using cx by (cases xs') simp_all
    then obtain ds where b: "body = c # ds" by blast
    have sk: "skip_ws body = c # ds" unfolding b by (rule skip_ws_opens[OF cx(2)])
    have c: "c \<noteq> CHR '']''" using cx(2) by (simp add: opens_value_def)
    have el: "parse_elements m body = Some (map reloaded xs, rest)"
      unfolding body_def
      by (rule parse_elements_rendered[OF IH _ ser m]) (simp_all add: Cons)
    have "parse_value (Suc m) (CHR ''['' # body) = Some (PList (map reloaded xs), rest)"
      using sk c el by (simp add: b)
    then show ?thesis by (simp add: n body_def)
  qed
qed

lemma parse_dict_rendered:
  assumes IH: "\<And>kv n rest. kv \<in> set kvs \<Longrightarrow> serializable (snd kv) \<Longrightarrow> delim rest \<Longrightarrow>
                 fuel_needed (snd kv) \<le> n \<Longrightarrow>
                 parse_value n (render (snd kv) @ rest) = Some (reloaded (snd kv), rest)"
    and ser: "list_all (\<lambda>kv. serializable (snd kv)) kvs"
    and fuel: "1 + sum_list (map (\<lambda>kv. 1 + fuel_needed (snd kv)) kvs) \<le> n"
  shows "parse_value n (CHR ''{'' # join_items (map render_member kvs) @ CHR ''}'' # rest)
         = Some (PDict (dict_of (map (\<lambda>kv. (fst kv, reloaded (snd kv))) kvs)), rest)"
proof -
  from fuel obtain m where n: "n = Suc m"
    and m: "sum_list (map (\<lambda>kv. 1 + fuel_needed (snd kv)) kvs) \<le> m"
    by (cases n) auto
  show ?thesis
  proof (cases kvs)
    case Nil
    then show ?thesis by (simp add: n skip_ws_punct dict_of_def)
  next
    case (Cons kv kvs')
    define body where "body = join_items (map render_member kvs) @ CHR ''}'' # rest"
    have "\<exists>ds. body = CHR 0x22 # ds"
      unfolding body_def Cons by (cases kvs') (simp_all add: render_member_def py_encode_str_def)
    then obtain ds where b: "body = CHR 0x22 # ds" by blast
    have "opens_value (CHR 0x22)" by (simp add: opens_value_def is_ws_def)
    then have sk: "skip_ws body = CHR 0x22 # ds" unfolding b by (rule skip_ws_opens)
    have el: "parse_members m body = Some (map (\<lambda>kv. (fst kv, reloaded (snd kv))) kvs, rest)"
      unfolding body_def
      by (rule parse_members_rendered[OF IH _ ser m]) (simp_all add: Cons)
    have "parse_value (Suc m) (CHR ''{'' # body)
          = Some (PDict (dict_of (map (\<lambda>kv. (fst kv, reloaded (snd kv))) kvs)), rest)"
      using sk el by (simp add: b)
    then show ?thesis by (simp add: n body_def)
  qed
qed

lemma parse_value_rendered:
  "serializable v \<Longrightarrow> delim rest \<Longrightarrow> fuel_needed v \<le> n \<Longrightarrow>
   parse_value n (render v @ rest) = Some (reloaded v, rest)"
proof (induction v arbitrary: n rest)
  case PNone
  then obtain m where "n = Suc m" by (cases n) auto
  then show ?case by simp
next
  case (PBool b)
  then obtain m where "n = Suc m" by (cases n) auto
  then show ?case by simp
next
  case (PInt i)
  then obtain m where n: "n = Suc m" by (cases n) auto
  from str_int_first[of i] obtain c cs where s: "str_int i = c # cs"
    and c: "c = CHR ''-'' \<or> is_digit c" by blast
  have "parse_number (c # cs @ rest) = Some (i, rest)"
    using parse_number_str_int[OF PInt.prems(2), of i] s by simp
  moreover have "c \<noteq> CHR ''['' \<and> c \<noteq> CHR ''{'' \<and> c \<noteq> CHR 0x22 \<and> c \<noteq> CHR ''n''
      \<and> c \<noteq> CHR ''t'' \<and> c \<noteq> CHR ''f''"
    using c by (auto simp: is_digit_def)
  ultimately show ?case by (simp add: n s)
next
  case (PStr s)
  then obtain m where n: "n = Suc m" by (cases n) auto
  show ?case
    by (simp add: n py_encode_str_def parse_chars_encoded del: parse_chars.simps)
next
  case (PList xs)
  have "parse_value n (CHR ''['' # join_items (map render xs) @ CHR '']'' # rest)
         = Some (PList (map reloaded xs), rest)"
    using PList.prems by (intro parse_list_rendered PList.IH) simp_all
  then show ?case by simp
next
  case (PTuple xs)
  have "parse_value n (CHR ''['' # join_items (map render xs) @ CHR '']'' # rest)
         = Some (PList (map reloaded xs), rest)"
    using PTuple.prems by (intro parse_list_rendered PTuple.IH) simp_all
  then show ?case by simp
next
  case (PDict kvs)
  have "parse_value n (CHR ''{'' # join_items (map render_member kvs) @ CHR ''}'' # rest)
         = Some (PDict (dict_of (map (\<lambda>kv. (fst kv, reloaded (snd kv))) kvs)), rest)"
  proof (rule parse_dict_rendered)
    show "list_all (\<lambda>kv. serializable (snd kv)) kvs" using PDict.prems by simp
    show "1 + sum_list (map (\<lambda>kv. 1 + fuel_needed (snd kv)) kvs) \<le> n" using PDict.prems by simp
    show "parse_value n' (render (snd kv) @ rest') = Some (reloaded (snd kv), rest')"
      if "kv \<in> set kvs" "serializable (snd kv)" "delim rest'" "fuel_needed (snd kv) \<le> n'"
      for kv n' rest'
    proof -
      obtain k v where kv: "kv = (k, v)" by (cases kv)
      show ?thesis
        using PDict.IH[of kv v] that by (simp add: kv)
    qed
  qed
  then show ?case by (simp add: render_dict del: render.simps)
next
  case (PObject c)
  then show ?case by simp
qed

lemma length_join_items: "sum_list (map (\<lambda>s. 1 + length s) ss) \<le> length (join_items ss) + 1"
  by (induction ss rule: join_items.induct) simp_all

lemma fuel_needed_le_length: "serializable v \<Longrightarrow> fuel_needed v \<le> length (render v)"
proof (induction v)
  case (PList xs)
  have "sum_list (map (\<lambda>x. 1 + fuel_needed x) xs) \<le> sum_list (map (\<lambda>x. 1 + length (render x)) xs)"
    using PList by (intro sum_list_mono) (simp add: list_all_iff)
  also have "\<dots> = sum_list (map (\<lambda>s. 1 + length s) (map render xs))"
    by (simp add: comp_def)
  also have "\<dots> \<le> length (join_items (map render xs)) + 1" by (rule length_join_items)
  finally show ?case by simp
next
  case (PTuple xs)
  have "sum_list (map (\<lambda>x. 1 + fuel_needed x) xs) \<le> sum_list (map (\<lambda>x. 1 + length (render x)) xs)"
    using PTuple by (intro sum_list_mono) (simp add: list_all_iff)
  also have "\<dots> = sum_list (map (\<lambda>s. 1 + length s) (map render xs))"
    by (simp add: comp_def)
  also have "\<dots> \<le> length (join_items (map render xs)) + 1" by (rule length_join_items)
  finally show ?case by simp
next
  case (PDict kvs)
  have "sum_list (map (\<lambda>kv. 1 + fuel_needed (snd kv)) kvs)
        \<le> sum_list (map (\<lambda>kv. 1 + length (render_member kv)) kvs)"
  proof (rule sum_list_mono)
    fix kv assume in_kvs: "kv \<in> set kvs"
    obtain k v where kv: "kv = (k, v)" by (cases kv)
    have "serializable v" using PDict.prems in_kvs by (auto simp: list_all_iff kv)
    from PDict.IH[of kv v] in_kvs this have "fuel_needed v \<le> length (render v)" by (simp add: kv)
    then show "1 + fuel_needed (snd kv) \<le> 1 + length (render_member kv)"
      by (simp add: kv render_member_def)
  qed
  also have "\<dots> = sum_list (map (\<lambda>s. 1 + length s) (map render_member kvs))"
    by (simp add: comp_def)
  also have "\<dots> \<le> length (join_items (map render_member kvs)) + 1" by (rule length_join_items)
  finally show ?case by (simp add: render_dict del: render.simps)
next
  case (PInt i)
  from str_int_first[of i] obtain c cs where "str_int i = c # cs" by blast
  then show ?case by simp
qed (simp_all add: py_encode_str_def)

lemma py_json_loads_render:
  assumes "serializable v"
  shows "py_json_loads (render v) = Inr (reloaded v)"
proof -
  from render_first[OF assms] obtain c cs where r: "render v = c # cs" "opens_value c"
    by blast
  have sk: "skip_ws (render v) = render v"
    unfolding r(1) by (rule skip_ws_opens[OF r(2)])
  have "parse_value (length (render v)) (render v @ []) = Some (reloaded v, [])"
    by (rule parse_value_rendered[OF assms _ fuel_needed_le_length[OF assms]]) simp
  then show ?thesis
    by (simp add: py_json_loads_def sk skip_ws_punct)
qed

lemma update_fresh: "k \<notin> fst ` set al \<Longrightarrow> AList.update k v al = al @ [(k, v)]"
  by (induction al) auto

lemma fold_update_distinct:
  "distinct (map fst ps) \<Longrightarrow> fst ` set ps \<inter> fst ` set acc = {} \<Longrightarrow>
   fold (\<lambda>kv d. AList.update (fst kv) (snd kv) d) ps acc = acc @ ps"
proof (induction ps arbitrary: acc)
  case Nil
  then show ?case by simp
next
  case (Cons p ps)
  have fresh: "fst p \<notin> fst ` set acc" using Cons.prems(2) by auto
  have "fst ` set ps \<inter> fst ` set (acc @ [p]) = {}"
    using Cons.prems by auto
  with Cons.IH[of "acc @ [p]"] Cons.prems(1) show ?case
    by (simp add: update_fresh[OF fresh])
qed

lemma dict_of_distinct: "distinct (map fst ps) \<Longrightarrow> dict_of ps = ps"
  using fold_update_distinct[of ps "[]"] by (simp add: dict_of_def)

lemma json_native_serializable: "json_native v \<Longrightarrow> serializable v"
proof (induction v)
  case (PDict kvs)
  then show ?case by (fastforce simp: list_all_iff)
qed (auto simp: list_all_iff)

lemma reloaded_json_native: "json_native v \<Longrightarrow> reloaded v = v"
proof (induction v)
  case (PList xs)
  then show ?case by (simp add: list_all_iff map_idI)
next
  case (PDict kvs)
  have "map (\<lambda>kv. (fst kv, reloaded (snd kv))) kvs = kvs"
  proof (rule map_idI)
    fix kv assume in_kvs: "kv \<in> set kvs"
    obtain k v where kv: "kv = (k, v)" by (cases kv)
    from PDict.IH[of kv v] PDict.prems in_kvs show "(fst kv, reloaded (snd kv)) = kv"
      by (auto simp: kv list_all_iff)
  qed
  with PDict.prems show ?case by (simp add: dict_of_distinct)
qed simp_all

lemma encode_keys:
  "py_encode_str ''success'' = ''\"success\"''"
  "py_encode_str ''message'' = ''\"message\"''"
  "py_encode_str ''data'' = ''\"data\"''"
  by (simp_all add: py_encode_str_def escape_char_def)

lemma json_dumps_python:
  "json_dumps python_json r =
     (if (case data r of None \<Rightarrow> True | Some d \<Rightarrow> serializable d)
      then Inr (render (as_dict r))
      else Inl (Exception ''TypeError'' ''Object is not JSON serializable''))"
  by (cases "data r")
     (simp_all add: json_dumps_def python_json_def py_encode_data_def as_dict_def encode_keys)

lemma serializable_as_dict:
  "serializable (as_dict r) = (case data r of None \<Rightarrow> True | Some d \<Rightarrow> serializable d)"
  by (cases "data r") (simp_all add: as_dict_def)

lemma reloaded_as_dict:
  "reloaded (as_dict r) =
     PDict [(''success'', PBool (success r)),
            (''message'', PStr (message r)),
            (''data'', case data r of None \<Rightarrow> PNone | Some d \<Rightarrow> reloaded d)]"
  by (cases "data r") (simp_all add: as_dict_def dict_of_def)

lemma round_trip_serializable:
  assumes "case data r of None \<Rightarrow> True | Some d \<Rightarrow> serializable d"
  shows "json_dumps python_json r = Inr (render (as_dict r))"
    and "json_loads python_json (render (as_dict r)) = Inr (reloaded (as_dict r))"
proof -
  show "json_dumps python_json r = Inr (render (as_dict r))"
    using assms by (simp add: json_dumps_python)
  have "serializable (as_dict r)" using assms by (simp add: serializable_as_dict)
  from py_json_loads_render[OF this]
  show "json_loads python_json (render (as_dict r)) = Inr (reloaded (as_dict r))"
    by (simp add: python_json_def)
qed

text \<open>
  C8, as amended. A tool result whose payload is \<open>None\<close> or is built from \<open>None\<close>,
  booleans, integers, strings, lists and dicts with string keys only: \<open>json.dumps\<close>
  succeeds, the text is the content of the tool turn, and \<open>json.loads\<close> of that content
  gives back the dict \<open>{success, message, data}\<close> as it was.
\<close>

theorem tool_result_round_trip:
  assumes "data r = None \<or> (\<exists>d. data r = Some d \<and> json_native d)"
  shows "\<exists>s. json_dumps python_json r = Inr s \<and>
             turn_content (tool_message call_id s) = Some s \<and>
             json_loads python_json s = Inr (as_dict r)"
proof -
  have ser: "case data r of None \<Rightarrow> True | Some d \<Rightarrow> serializable d"
    using assms by (auto simp: json_native_serializable)
  have "reloaded (as_dict r) = as_dict r"
    unfolding reloaded_as_dict using assms by (auto simp: as_dict_def reloaded_json_native)
  with round_trip_serializable[OF ser] show ?thesis
    by (simp add: tool_message_def)
qed

text \<open>
  The witness: the result of \<open>search_users\<close>, the text that \<open>json.dumps\<close> writes for it,
  and the value that \<open>json.loads\<close> reads from that text.
\<close>

theorem tool_result_round_trip_witness:
  "json_dumps python_json search_result =
     Inr ''{\"success\": true, \"message\": \"Found 1 user(s) matching criteria\", \"data\": {\"users\": [{\"user_id\": \"user_123\", \"email\": \"john@example.com\", \"subscription_status\": \"active\", \"account_type\": \"pro\"}], \"total_count\": 1}}'' \<and>
   json_loads python_json
     ''{\"success\": true, \"message\": \"Found 1 user(s) matching criteria\", \"data\": {\"users\": [{\"user_id\": \"user_123\", \"email\": \"john@example.com\", \"subscription_status\": \"active\", \"account_type\": \"pro\"}], \"total_count\": 1}}''
     = Inr (as_dict search_result)"
proof -
  have h: "data search_result = None \<or> (\<exists>d. data search_result = Some d \<and> json_native d)"
    by (simp add: search_result_def)
  have d: "json_dumps python_json search_result =
     Inr ''{\"success\": true, \"message\": \"Found 1 user(s) matching criteria\", \"data\": {\"users\": [{\"user_id\": \"user_123\", \"email\": \"john@example.com\", \"subscription_status\": \"active\", \"account_type\": \"pro\"}], \"total_count\": 1}}''"
    by code_simp
  from tool_result_round_trip[OF h, of "''call_1''"] d show ?thesis by auto
qed

text \<open>
  C8, as the claim states it, fails: a payload with a tuple is serializable, and the tuple
  comes back as a list, so that the structure parsed back is not the one serialized.
\<close>

theorem tuple_comes_back_as_list:
  "json_dumps python_json tuple_result =
     Inr ''{\"success\": true, \"message\": \"Found 2 user(s) matching criteria\", \"data\": {\"user_ids\": [1, 2]}}'' \<and>
   json_loads python_json
     ''{\"success\": true, \"message\": \"Found 2 user(s) matching criteria\", \"data\": {\"user_ids\": [1, 2]}}''
     = Inr (PDict [(''success'', PBool True),
                   (''message'', PStr ''Found 2 user(s) matching criteria''),
                   (''data'', PDict [(''user_ids'', PList [PInt 1, PInt 2])])]) \<and>
   PDict [(''success'', PBool True),
          (''message'', PStr ''Found 2 user(s) matching criteria''),
          (''data'', PDict [(''user_ids'', PList [PInt 1, PInt 2])])]
     \<noteq> as_dict tuple_result"
  by code_simp

end
